theory Spec2Isabelle
  imports Main "HOL-Library.Word" "HOL-Library.Monad_Syntax" "HOL-Library.Multiset"
begin

section \<open>The pull protocol\<close>

text \<open>
  Every stream of \<^verbatim>\<open>cppStream.hpp\<close> is a struct with the member functions
  \<^verbatim>\<open>next()\<close>, \<^verbatim>\<open>front()\<close> and \<^verbatim>\<open>endless()\<close>; combinators and terminal builders are
  templates over the type of their upstream.  A template parameter \<^verbatim>\<open>Stream\<close> is the
  record of these three member functions over the struct's value \<open>'s\<close>.  \<open>next\<close> returns
  the flag together with the updated struct; \<open>None\<close> is a call that does not return
  (\<^verbatim>\<open>EndlessEmptyStream::next\<close>, or a loop over an upstream that never ends).
  \<open>front\<close> is only meaningful after a \<open>next\<close> that returned true.
\<close>

record ('s, 'a) Stream =
  "next" :: "'s \<Rightarrow> (bool \<times> 's) option"
  front :: "'s \<Rightarrow> 'a"
  endless :: "'s \<Rightarrow> bool"

text \<open>
  The exceptions the library can raise: its own \<^verbatim>\<open>endless_stream_exception\<close>, and
  \<^verbatim>\<open>std::bad_optional_access\<close> from \<^verbatim>\<open>init.value()\<close> on an empty optional.
\<close>

datatype exception = endless_stream_exception | bad_optional_access

definition throw_if_endless :: "('s, 'a) Stream \<Rightarrow> 's \<Rightarrow> exception + unit" where
  "throw_if_endless S s = (if endless S s then Inl endless_stream_exception else Inr ())"

text \<open>
  The sequence a stream yields when it is advanced until \<open>next\<close> first returns false,
  with the struct it is left in; \<open>None\<close> when that never happens.  A stream is finite
  with elements \<open>xs\<close> when \<open>drain S s = Some (xs, e)\<close>.
\<close>

partial_function (option) drain :: "('s, 'a) Stream \<Rightarrow> 's \<Rightarrow> ('a list \<times> 's) option" where
  "drain S s = do {
     (r, s') \<leftarrow> next S s;
     if r then do { (xs, e) \<leftarrow> drain S s'; Some (front S s' # xs, e) }
     else Some ([], s') }"

text \<open>The flags returned by \<open>k\<close> successive calls of \<open>next\<close>.\<close>

fun advances :: "('s, 'a) Stream \<Rightarrow> nat \<Rightarrow> 's \<Rightarrow> (bool list \<times> 's) option" where
  "advances S 0 s = Some ([], s)"
| "advances S (Suc k) s = do {
     (r, s') \<leftarrow> next S s;
     (rs, e) \<leftarrow> advances S k s';
     Some (r # rs, e) }"

section \<open>Sources\<close>

text \<open>
  \<^verbatim>\<open>IteratorStream\<close> over a container: the iterators are positions in the container,
  which is part of the value because \<^verbatim>\<open>front()\<close> returns a reference into it.
  The fields are the container, \<^verbatim>\<open>current\<close>, \<^verbatim>\<open>upcoming\<close>, \<^verbatim>\<open>last\<close> and \<^verbatim>\<open>unchecked\<close>.
\<close>

datatype 'a IteratorStream = IteratorStream "'a list" nat nat nat bool

fun IteratorStream_next :: "'a IteratorStream \<Rightarrow> (bool \<times> 'a IteratorStream) option" where
  "IteratorStream_next (IteratorStream c current upcoming lst unchecked) =
     (if upcoming = lst then Some (False, IteratorStream c current upcoming lst unchecked)
      else Some (True, IteratorStream c upcoming (upcoming + 1) lst unchecked))"

fun IteratorStream_front :: "'a IteratorStream \<Rightarrow> 'a" where
  "IteratorStream_front (IteratorStream c current upcoming lst unchecked) = c ! current"

fun IteratorStream_endless :: "'a IteratorStream \<Rightarrow> bool" where
  "IteratorStream_endless (IteratorStream c current upcoming lst unchecked) = unchecked"

definition IteratorStream_ops :: "('a IteratorStream, 'a) Stream" where
  "IteratorStream_ops =
     \<lparr>next = IteratorStream_next, front = IteratorStream_front, endless = IteratorStream_endless\<rparr>"

text \<open>A write through the reference that \<^verbatim>\<open>front()\<close> returns.\<close>

fun IteratorStream_put :: "'a IteratorStream \<Rightarrow> 'a \<Rightarrow> 'a IteratorStream" where
  "IteratorStream_put (IteratorStream c current upcoming lst unchecked) v =
     IteratorStream (c[current := v]) current upcoming lst unchecked"

text \<open>\<^verbatim>\<open>from(container)\<close>, that is \<^verbatim>\<open>from_iterator(begin, end)\<close>.\<close>

definition from_container :: "'a list \<Rightarrow> 'a IteratorStream" where
  "from_container c = IteratorStream c 0 0 (length c) False"

text \<open>
  \<^verbatim>\<open>IntegerStream\<close> with the fields \<^verbatim>\<open>current\<close> and \<^verbatim>\<open>step\<close>, and \<^verbatim>\<open>iota\<close>.  \<^verbatim>\<open>IntType\<close> is a
  machine integer of some width \<open>'w\<close>: the functions below fix the type parameter to
  \<open>'w word\<close>, so that \<^verbatim>\<open>first - step\<close> and \<^verbatim>\<open>current += step\<close> wrap (for a signed \<^verbatim>\<open>IntType\<close>
  the word is its two's complement representation).
\<close>

datatype 'n IntegerStream = IntegerStream 'n 'n

fun IntegerStream_next ::
    "'w::len word IntegerStream \<Rightarrow> (bool \<times> 'w word IntegerStream) option" where
  "IntegerStream_next (IntegerStream current step) = Some (True, IntegerStream (current + step) step)"

fun IntegerStream_front :: "'n IntegerStream \<Rightarrow> 'n" where
  "IntegerStream_front (IntegerStream current step) = current"

definition IntegerStream_ops :: "('w::len word IntegerStream, 'w word) Stream" where
  "IntegerStream_ops =
     \<lparr>next = IntegerStream_next, front = IntegerStream_front, endless = (\<lambda>_. True)\<rparr>"

definition iota :: "'w::len word \<Rightarrow> 'w word \<Rightarrow> 'w word IntegerStream" where
  "iota first step = IntegerStream (first - step) step"

section \<open>Unary combinators\<close>

text \<open>
  \<^verbatim>\<open>MapStream\<close>: the fields are \<^verbatim>\<open>stream\<close> and \<^verbatim>\<open>cache_value\<close>; \<^verbatim>\<open>pred\<close> returns an optional.
\<close>

datatype ('s, 'b) MapStream = MapStream 's "'b option"

partial_function (option) MapStream_loop ::
    "('s, 'a) Stream \<Rightarrow> ('a \<Rightarrow> 'b option) \<Rightarrow> 's \<Rightarrow> 'b option \<Rightarrow> (bool \<times> ('s, 'b) MapStream) option" where
  "MapStream_loop S pred s cache_value = do {
     (r, s') \<leftarrow> next S s;
     if r then
       (if pred (front S s') \<noteq> None then Some (True, MapStream s' (pred (front S s')))
        else MapStream_loop S pred s' (pred (front S s')))
     else Some (False, MapStream s' cache_value) }"

fun MapStream_next ::
    "('s, 'a) Stream \<Rightarrow> ('a \<Rightarrow> 'b option) \<Rightarrow> ('s, 'b) MapStream \<Rightarrow> (bool \<times> ('s, 'b) MapStream) option" where
  "MapStream_next S pred (MapStream s cache_value) = MapStream_loop S pred s cache_value"

fun MapStream_front :: "('s, 'b) MapStream \<Rightarrow> 'b" where
  "MapStream_front (MapStream s cache_value) = the cache_value"

fun MapStream_endless :: "('s, 'a) Stream \<Rightarrow> ('s, 'b) MapStream \<Rightarrow> bool" where
  "MapStream_endless S (MapStream s cache_value) = endless S s"

definition MapStream_ops ::
    "('s, 'a) Stream \<Rightarrow> ('a \<Rightarrow> 'b option) \<Rightarrow> (('s, 'b) MapStream, 'b) Stream" where
  "MapStream_ops S pred =
     \<lparr>next = MapStream_next S pred, front = MapStream_front, endless = MapStream_endless S\<rparr>"

text \<open>
  \<^verbatim>\<open>TakeStream\<close>: the fields are \<^verbatim>\<open>stream\<close> and \<^verbatim>\<open>count\<close>.  \<^verbatim>\<open>count\<close> is a \<^verbatim>\<open>size_t\<close>, a
  machine word of some width \<open>'w\<close>: the functions below fix the second type parameter
  to \<open>'w word\<close>, so that \<^verbatim>\<open>count + 1\<close> and \<^verbatim>\<open>--count\<close> wrap.
\<close>

datatype ('s, 'n) TakeStream = TakeStream 's 'n

definition TakeStream_init :: "'s \<Rightarrow> 'w::len word \<Rightarrow> ('s, 'w word) TakeStream" where
  "TakeStream_init s cnt = TakeStream s (cnt + 1)"

fun TakeStream_next ::
    "('s, 'a) Stream \<Rightarrow> ('s, 'w::len word) TakeStream \<Rightarrow> (bool \<times> ('s, 'w word) TakeStream) option" where
  "TakeStream_next S (TakeStream s cnt) =
     (if cnt \<noteq> 0 then
        (if cnt - 1 \<noteq> 0 then do { (r, s') \<leftarrow> next S s; Some (r, TakeStream s' (cnt - 1)) }
         else Some (False, TakeStream s (cnt - 1)))
      else Some (False, TakeStream s cnt))"

fun TakeStream_front :: "('s, 'a) Stream \<Rightarrow> ('s, 'n) TakeStream \<Rightarrow> 'a" where
  "TakeStream_front S (TakeStream s cnt) = front S s"

definition TakeStream_ops :: "('s, 'a) Stream \<Rightarrow> (('s, 'w::len word) TakeStream, 'a) Stream" where
  "TakeStream_ops S =
     \<lparr>next = TakeStream_next S, front = TakeStream_front S, endless = (\<lambda>_. False)\<rparr>"

text \<open>
  \<^verbatim>\<open>SkipStream\<close>: the same fields.  The loop of \<^verbatim>\<open>next()\<close> returns the upstream and
  the counter it stops with.
\<close>

datatype ('s, 'n) SkipStream = SkipStream 's 'n

definition SkipStream_init :: "'s \<Rightarrow> 'w::len word \<Rightarrow> ('s, 'w word) SkipStream" where
  "SkipStream_init s cnt = SkipStream s (cnt + 1)"

partial_function (option) SkipStream_loop ::
    "('s, 'a) Stream \<Rightarrow> 's \<Rightarrow> 'w::len word \<Rightarrow> ('s \<times> 'w word) option" where
  "SkipStream_loop S s cnt =
     (if cnt \<noteq> 0 then
        (if cnt - 1 \<noteq> 0 then do {
           (r, s') \<leftarrow> next S s;
           if r then SkipStream_loop S s' (cnt - 1) else Some (s', cnt - 1) }
         else Some (s, cnt - 1))
      else Some (s, cnt))"

fun SkipStream_next ::
    "('s, 'a) Stream \<Rightarrow> ('s, 'w::len word) SkipStream \<Rightarrow> (bool \<times> ('s, 'w word) SkipStream) option" where
  "SkipStream_next S (SkipStream s cnt) = do {
     (s', cnt') \<leftarrow> SkipStream_loop S s cnt;
     (r, s'') \<leftarrow> next S s';
     Some (r, SkipStream s'' cnt') }"

fun SkipStream_front :: "('s, 'a) Stream \<Rightarrow> ('s, 'n) SkipStream \<Rightarrow> 'a" where
  "SkipStream_front S (SkipStream s cnt) = front S s"

fun SkipStream_endless :: "('s, 'a) Stream \<Rightarrow> ('s, 'n) SkipStream \<Rightarrow> bool" where
  "SkipStream_endless S (SkipStream s cnt) = endless S s"

definition SkipStream_ops :: "('s, 'a) Stream \<Rightarrow> (('s, 'w::len word) SkipStream, 'a) Stream" where
  "SkipStream_ops S =
     \<lparr>next = SkipStream_next S, front = SkipStream_front S, endless = SkipStream_endless S\<rparr>"

section \<open>Buffering combinators\<close>

text \<open>
  The loop \<^verbatim>\<open>while(stream.next()) buffer.push_back(stream.front());\<close> of \<^verbatim>\<open>SortStream::next\<close>
  and of the constructor of \<^verbatim>\<open>FlatStream\<close>.
\<close>

partial_function (option) push_back_loop ::
    "('s, 'a) Stream \<Rightarrow> 's \<Rightarrow> 'a list \<Rightarrow> ('s \<times> 'a list) option" where
  "push_back_loop S s buffer = do {
     (r, s') \<leftarrow> next S s;
     if r then push_back_loop S s' (buffer @ [front S s']) else Some (s', buffer) }"

text \<open>
  \<^verbatim>\<open>std::stable_sort\<close> belongs to the C++ standard library, not to the repository.  It is
  modelled by the insertion sort that places an element before the first element of the
  sorted rest that does not precede it, and \<^verbatim>\<open>compare(a, b)\<close> is read as "a precedes b".
\<close>

fun stable_insert :: "('a \<Rightarrow> 'a \<Rightarrow> bool) \<Rightarrow> 'a \<Rightarrow> 'a list \<Rightarrow> 'a list" where
  "stable_insert compare x [] = [x]"
| "stable_insert compare x (y # ys) =
     (if compare y x then y # stable_insert compare x ys else x # y # ys)"

definition std_stable_sort :: "('a \<Rightarrow> 'a \<Rightarrow> bool) \<Rightarrow> 'a list \<Rightarrow> 'a list" where
  "std_stable_sort compare xs = foldr (stable_insert compare) xs []"

text \<open>
  \<^verbatim>\<open>SortStream\<close>: the fields are \<^verbatim>\<open>stream\<close>, \<^verbatim>\<open>sorted\<close> and \<^verbatim>\<open>current\<close>.  \<^verbatim>\<open>current\<close> counts
  the calls of \<^verbatim>\<open>next()\<close> and is compared with the size of the buffer; it is a natural
  number here, which is the \<^verbatim>\<open>size_t\<close> as long as fewer than \<open>2 ^ w\<close> calls are made.
\<close>

datatype ('s, 'a) SortStream = SortStream 's "'a list" nat

definition SortStream_init :: "'s \<Rightarrow> ('s, 'a) SortStream" where
  "SortStream_init s = SortStream s [] 0"

fun SortStream_next ::
    "('s, 'a) Stream \<Rightarrow> ('a \<Rightarrow> 'a \<Rightarrow> bool) \<Rightarrow> ('s, 'a) SortStream \<Rightarrow> (bool \<times> ('s, 'a) SortStream) option" where
  "SortStream_next S compare (SortStream s sorted' current) =
     (if current = 0 then do {
        (s', buffer) \<leftarrow> push_back_loop S s sorted';
        Some ((current + 1) - 1 < length (std_stable_sort compare buffer),
              SortStream s' (std_stable_sort compare buffer) (current + 1)) }
      else Some ((current + 1) - 1 < length sorted', SortStream s sorted' (current + 1)))"

fun SortStream_front :: "('s, 'a) SortStream \<Rightarrow> 'a" where
  "SortStream_front (SortStream s sorted' current) = sorted' ! (current - 1)"

fun SortStream_endless :: "('s, 'a) Stream \<Rightarrow> ('s, 'a) SortStream \<Rightarrow> bool" where
  "SortStream_endless S (SortStream s sorted' current) = endless S s"

definition SortStream_ops ::
    "('s, 'a) Stream \<Rightarrow> ('a \<Rightarrow> 'a \<Rightarrow> bool) \<Rightarrow> (('s, 'a) SortStream, 'a) Stream" where
  "SortStream_ops S compare =
     \<lparr>next = SortStream_next S compare, front = SortStream_front, endless = SortStream_endless S\<rparr>"

text \<open>
  \<^verbatim>\<open>FlatStream\<close>: the fields are \<^verbatim>\<open>stream\<close>, \<^verbatim>\<open>streams\<close> and \<^verbatim>\<open>current\<close>.  The outer stream
  \<open>S\<close> yields inner streams, all of one type with the operations \<open>I\<close>.  The constructor
  drains its parameter into \<^verbatim>\<open>streams\<close>; the member \<^verbatim>\<open>stream\<close> is the copy made before.
\<close>

datatype ('so, 'si) FlatStream = FlatStream 'so "'si list" nat

definition FlatStream_init :: "('so, 'si) Stream \<Rightarrow> 'so \<Rightarrow> ('so, 'si) FlatStream option" where
  "FlatStream_init S s = do {
     (s', streams) \<leftarrow> push_back_loop S s [];
     Some (FlatStream s streams 0) }"

partial_function (option) FlatStream_loop ::
    "('si, 'a) Stream \<Rightarrow> 'si list \<Rightarrow> nat \<Rightarrow> (bool \<times> 'si list \<times> nat) option" where
  "FlatStream_loop I streams current =
     (if current \<noteq> length streams then do {
        (r, i') \<leftarrow> next I (streams ! current);
        if r then Some (True, streams[current := i'], current)
        else FlatStream_loop I (streams[current := i']) (current + 1) }
      else Some (False, streams, current))"

fun FlatStream_next ::
    "('si, 'a) Stream \<Rightarrow> ('so, 'si) FlatStream \<Rightarrow> (bool \<times> ('so, 'si) FlatStream) option" where
  "FlatStream_next I (FlatStream s streams current) = do {
     (r, streams', current') \<leftarrow> FlatStream_loop I streams current;
     Some (r, FlatStream s streams' current') }"

fun FlatStream_front :: "('si, 'a) Stream \<Rightarrow> ('so, 'si) FlatStream \<Rightarrow> 'a" where
  "FlatStream_front I (FlatStream s streams current) = front I (streams ! current)"

fun FlatStream_endless :: "('si, 'a) Stream \<Rightarrow> ('so, 'si) FlatStream \<Rightarrow> bool" where
  "FlatStream_endless I (FlatStream s streams current) = list_all (endless I) streams"

definition FlatStream_ops :: "('si, 'a) Stream \<Rightarrow> (('so, 'si) FlatStream, 'a) Stream" where
  "FlatStream_ops I =
     \<lparr>next = FlatStream_next I, front = FlatStream_front I, endless = FlatStream_endless I\<rparr>"

section \<open>Combinators over several streams\<close>

text \<open>
  \<^verbatim>\<open>EndlessFlatStream\<close>: the fields are \<^verbatim>\<open>stream\<close> and \<^verbatim>\<open>left\<close>.  \<^verbatim>\<open>stream.front().next()\<close>
  advances the inner stream through the reference that the outer \<^verbatim>\<open>front()\<close> returns;
  \<open>put\<close> is that write into the outer stream (\<open>IteratorStream_put\<close> for a container
  of streams, \<open>\<lambda>s i. s\<close> for an outer stream whose \<^verbatim>\<open>front()\<close> returns a temporary).
\<close>

datatype 'so EndlessFlatStream = EndlessFlatStream 'so bool

definition EndlessFlatStream_init :: "'so \<Rightarrow> 'so EndlessFlatStream" where
  "EndlessFlatStream_init s = EndlessFlatStream s False"

definition front_next ::
    "('so, 'si) Stream \<Rightarrow> ('so \<Rightarrow> 'si \<Rightarrow> 'so) \<Rightarrow> ('si, 'a) Stream \<Rightarrow> 'so \<Rightarrow> (bool \<times> 'so) option" where
  "front_next S put I s = do { (r, i') \<leftarrow> next I (front S s); Some (r, put s i') }"

fun EndlessFlatStream_next ::
    "('so, 'si) Stream \<Rightarrow> ('so \<Rightarrow> 'si \<Rightarrow> 'so) \<Rightarrow> ('si, 'a) Stream \<Rightarrow> 'so EndlessFlatStream
       \<Rightarrow> (bool \<times> 'so EndlessFlatStream) option" where
  "EndlessFlatStream_next S put I (EndlessFlatStream s left) = do {
     (r1, s1) \<leftarrow> (if left then front_next S put I s else Some (False, s));
     if r1 then Some (True, EndlessFlatStream s1 left)
     else do {
       (r2, s2) \<leftarrow> next S s1;
       if r2 then do { (r3, s3) \<leftarrow> front_next S put I s2; Some (r3, EndlessFlatStream s3 r2) }
       else Some (False, EndlessFlatStream s2 r2) } }"

fun EndlessFlatStream_front ::
    "('so, 'si) Stream \<Rightarrow> ('si, 'a) Stream \<Rightarrow> 'so EndlessFlatStream \<Rightarrow> 'a" where
  "EndlessFlatStream_front S I (EndlessFlatStream s left) = front I (front S s)"

definition EndlessFlatStream_ops ::
    "('so, 'si) Stream \<Rightarrow> ('so \<Rightarrow> 'si \<Rightarrow> 'so) \<Rightarrow> ('si, 'a) Stream \<Rightarrow> ('so EndlessFlatStream, 'a) Stream" where
  "EndlessFlatStream_ops S put I =
     \<lparr>next = EndlessFlatStream_next S put I, front = EndlessFlatStream_front S I,
      endless = (\<lambda>_. True)\<rparr>"

text \<open>
  The variadic \<^verbatim>\<open>JoinStreams\<close> and \<^verbatim>\<open>CombineStreams\<close> hold streams of different types.
  Here the constituents have one type: a constituent is a stream value together with
  its operations.
\<close>

type_synonym ('s, 'a) constituent = "('s, 'a) Stream \<times> 's"

definition constituent_endless :: "('s, 'a) constituent \<Rightarrow> bool" where
  "constituent_endless c = endless (fst c) (snd c)"

definition constituent_front :: "('s, 'a) constituent \<Rightarrow> 'a" where
  "constituent_front c = front (fst c) (snd c)"

definition constituent_next :: "('s, 'a) constituent \<Rightarrow> (bool \<times> ('s, 'a) constituent) option" where
  "constituent_next c = do { (r, s') \<leftarrow> next (fst c) (snd c); Some (r, (fst c, s')) }"

text \<open>
  \<^verbatim>\<open>JoinStreams<StreamA, StreamB>\<close> is a \<^verbatim>\<open>JoinStreamAB<StreamA, StreamB>\<close>, and
  \<^verbatim>\<open>JoinStreams<StreamA, Streams...>\<close> is a \<^verbatim>\<open>JoinStreamAB<StreamA, JoinStreams<Streams...>>\<close>;
  the fields of \<^verbatim>\<open>JoinStreamAB\<close> are \<^verbatim>\<open>streamA\<close>, \<^verbatim>\<open>streamB\<close> and \<^verbatim>\<open>B\<close>.
\<close>

datatype ('s, 'a) JoinStreams =
    JoinStreamAB "('s, 'a) constituent" "('s, 'a) constituent" bool
  | JoinStreams "('s, 'a) constituent" "('s, 'a) JoinStreams" bool

fun JoinStreams_next :: "('s, 'a) JoinStreams \<Rightarrow> (bool \<times> ('s, 'a) JoinStreams) option" where
  "JoinStreams_next (JoinStreamAB streamA streamB B) = do {
     (r, streamA') \<leftarrow> constituent_next streamA;
     if r then Some (True, JoinStreamAB streamA' streamB B)
     else do { (r', streamB') \<leftarrow> constituent_next streamB;
               Some (r', JoinStreamAB streamA' streamB' True) } }"
| "JoinStreams_next (JoinStreams streamA streamB B) = do {
     (r, streamA') \<leftarrow> constituent_next streamA;
     if r then Some (True, JoinStreams streamA' streamB B)
     else do { (r', streamB') \<leftarrow> JoinStreams_next streamB;
               Some (r', JoinStreams streamA' streamB' True) } }"

fun JoinStreams_front :: "('s, 'a) JoinStreams \<Rightarrow> 'a" where
  "JoinStreams_front (JoinStreamAB streamA streamB B) =
     (if B then constituent_front streamB else constituent_front streamA)"
| "JoinStreams_front (JoinStreams streamA streamB B) =
     (if B then JoinStreams_front streamB else constituent_front streamA)"

fun JoinStreams_endless :: "('s, 'a) JoinStreams \<Rightarrow> bool" where
  "JoinStreams_endless (JoinStreamAB streamA streamB B) =
     (constituent_endless streamA \<or> constituent_endless streamB)"
| "JoinStreams_endless (JoinStreams streamA streamB B) =
     (constituent_endless streamA \<or> JoinStreams_endless streamB)"

text \<open>\<^verbatim>\<open>join_streams\<close>; fewer than two streams are refused by its \<^verbatim>\<open>static_assert\<close>.\<close>

fun join_streams :: "('s, 'a) constituent list \<Rightarrow> ('s, 'a) JoinStreams option" where
  "join_streams [streamA, streamB] = Some (JoinStreamAB streamA streamB False)"
| "join_streams (streamA # streamB # streams) =
     map_option (\<lambda>j. JoinStreams streamA j False) (join_streams (streamB # streams))"
| "join_streams _ = None"

text \<open>
  \<^verbatim>\<open>CombineStreams\<close>: the fields are \<^verbatim>\<open>pred\<close>, \<^verbatim>\<open>cache\<close> and \<^verbatim>\<open>streams\<close>.  \<open>all_next\<close> is the
  fold \<^verbatim>\<open>(streams.next() && ...)\<close>, from left to right, which stops at the first stream
  that fails.
\<close>

datatype ('s, 'a, 'b) CombineStreams = CombineStreams "'b option" "('s, 'a) constituent list"

fun all_next :: "('s, 'a) constituent list \<Rightarrow> (bool \<times> ('s, 'a) constituent list) option" where
  "all_next [] = Some (True, [])"
| "all_next (c # cs) = do {
     (r, c') \<leftarrow> constituent_next c;
     if r then do { (r', cs') \<leftarrow> all_next cs; Some (r', c' # cs') }
     else Some (False, c' # cs) }"

fun CombineStreams_next ::
    "('a list \<Rightarrow> 'b option) \<Rightarrow> ('s, 'a, 'b) CombineStreams \<Rightarrow> (bool \<times> ('s, 'a, 'b) CombineStreams) option" where
  "CombineStreams_next pred (CombineStreams cache streams) = do {
     (r, streams') \<leftarrow> all_next streams;
     if r then Some (True, CombineStreams (pred (map constituent_front streams')) streams')
     else Some (False, CombineStreams cache streams') }"

fun CombineStreams_front :: "('s, 'a, 'b) CombineStreams \<Rightarrow> 'b" where
  "CombineStreams_front (CombineStreams cache streams) = the cache"

fun CombineStreams_endless :: "('s, 'a, 'b) CombineStreams \<Rightarrow> bool" where
  "CombineStreams_endless (CombineStreams cache streams) = list_all constituent_endless streams"

text \<open>\<^verbatim>\<open>combine_streams\<close>, with the same \<^verbatim>\<open>static_assert\<close>.\<close>

definition combine_streams :: "('s, 'a) constituent list \<Rightarrow> ('s, 'a, 'b) CombineStreams option" where
  "combine_streams streams = (if 2 \<le> length streams then Some (CombineStreams None streams) else None)"

section \<open>Terminal operations\<close>

text \<open>
  A builder's \<^verbatim>\<open>build\<close> takes the stream by value.  The model returns what \<^verbatim>\<open>build\<close>
  returns or throws, paired with the value its local copy of the stream ends with, which
  shows how far the stream was advanced.
\<close>

text \<open>\<^verbatim>\<open>CountBuilder\<close>: \<^verbatim>\<open>++counter\<close> once for each successful \<^verbatim>\<open>next()\<close>.\<close>

partial_function (option) CountBuilder_loop ::
    "('s, 'a) Stream \<Rightarrow> 's \<Rightarrow> 'c::semiring_1 \<Rightarrow> ('c \<times> 's) option" where
  "CountBuilder_loop S s counter = do {
     (r, s') \<leftarrow> next S s;
     if r then CountBuilder_loop S s' (counter + 1) else Some (counter, s') }"

definition CountBuilder_build ::
    "'c::semiring_1 \<Rightarrow> ('s, 'a) Stream \<Rightarrow> 's \<Rightarrow> ((exception + 'c) \<times> 's) option" where
  "CountBuilder_build counter S s =
     (case throw_if_endless S s of
        Inl e \<Rightarrow> Some (Inl e, s)
      | Inr _ \<Rightarrow> do { (c, s') \<leftarrow> CountBuilder_loop S s counter; Some (Inr c, s') })"

text \<open>\<^verbatim>\<open>ForEachBuilder\<close>: the callback acts on the state \<open>'u\<close> of the caller.\<close>

partial_function (option) ForEachBuilder_loop ::
    "('a \<Rightarrow> 'u \<Rightarrow> 'u) \<Rightarrow> ('s, 'a) Stream \<Rightarrow> 's \<Rightarrow> 'u \<Rightarrow> ('u \<times> 's) option" where
  "ForEachBuilder_loop pred S s u = do {
     (r, s') \<leftarrow> next S s;
     if r then ForEachBuilder_loop pred S s' (pred (front S s') u) else Some (u, s') }"

definition ForEachBuilder_build ::
    "('a \<Rightarrow> 'u \<Rightarrow> 'u) \<Rightarrow> ('s, 'a) Stream \<Rightarrow> 's \<Rightarrow> 'u \<Rightarrow> ((exception + 'u) \<times> 's) option" where
  "ForEachBuilder_build pred S s u =
     (case throw_if_endless S s of
        Inl e \<Rightarrow> Some (Inl e, s)
      | Inr _ \<Rightarrow> do { (u', s') \<leftarrow> ForEachBuilder_loop pred S s u; Some (Inr u', s') })"

text \<open>
  \<^verbatim>\<open>collect\<close> runs \<^verbatim>\<open>for_each\<close> with the collector bound to the container and returns the
  container.
\<close>

definition collect_build ::
    "'c \<Rightarrow> ('c \<Rightarrow> 'a \<Rightarrow> 'c) \<Rightarrow> ('s, 'a) Stream \<Rightarrow> 's \<Rightarrow> ((exception + 'c) \<times> 's) option" where
  "collect_build container collector S s =
     ForEachBuilder_build (\<lambda>x c. collector c x) S s container"

text \<open>
  \<^verbatim>\<open>ReduceBuilder\<close>.  \<^verbatim>\<open>init.value()\<close> throws when \<^verbatim>\<open>init\<close> is empty, which takes a stream
  that advances after it has failed.
\<close>

partial_function (option) ReduceBuilder_loop ::
    "('a \<Rightarrow> 'a \<Rightarrow> 'a) \<Rightarrow> ('s, 'a) Stream \<Rightarrow> 's \<Rightarrow> 'a option \<Rightarrow> ((exception + 'a option) \<times> 's) option" where
  "ReduceBuilder_loop biPred S s init = do {
     (r, s') \<leftarrow> next S s;
     if r then
       (if init = None then Some (Inl bad_optional_access, s')
        else ReduceBuilder_loop biPred S s' (Some (biPred (the init) (front S s'))))
     else Some (Inr init, s') }"

definition ReduceBuilder_build ::
    "('a \<Rightarrow> 'a \<Rightarrow> 'a) \<Rightarrow> ('s, 'a) Stream \<Rightarrow> 's \<Rightarrow> ((exception + 'a option) \<times> 's) option" where
  "ReduceBuilder_build biPred S s =
     (case throw_if_endless S s of
        Inl e \<Rightarrow> Some (Inl e, s)
      | Inr _ \<Rightarrow> do {
          (r, s1) \<leftarrow> next S s;
          ReduceBuilder_loop biPred S s1 (if r then Some (front S s1) else None) })"

text \<open>
  \<^verbatim>\<open>std::min(a, b, comp)\<close> and \<^verbatim>\<open>std::max(a, b, comp)\<close> of the C++ standard library:
  \<^verbatim>\<open>comp(b, a) ? b : a\<close> and \<^verbatim>\<open>comp(a, b) ? b : a\<close>.
\<close>

definition std_min :: "'a \<Rightarrow> 'a \<Rightarrow> ('a \<Rightarrow> 'a \<Rightarrow> bool) \<Rightarrow> 'a" where
  "std_min a b compare = (if compare b a then b else a)"

definition std_max :: "'a \<Rightarrow> 'a \<Rightarrow> ('a \<Rightarrow> 'a \<Rightarrow> bool) \<Rightarrow> 'a" where
  "std_max a b compare = (if compare a b then b else a)"

text \<open>\<^verbatim>\<open>MinBuilder\<close> and \<^verbatim>\<open>MaxBuilder\<close>.\<close>

partial_function (option) MinBuilder_loop ::
    "('a \<Rightarrow> 'a \<Rightarrow> bool) \<Rightarrow> ('s, 'a) Stream \<Rightarrow> 's \<Rightarrow> 'a option \<Rightarrow> ((exception + 'a option) \<times> 's) option" where
  "MinBuilder_loop compare S s init = do {
     (r, s') \<leftarrow> next S s;
     if r then
       (if init = None then Some (Inl bad_optional_access, s')
        else MinBuilder_loop compare S s' (Some (std_min (front S s') (the init) compare)))
     else Some (Inr init, s') }"

definition MinBuilder_build ::
    "('a \<Rightarrow> 'a \<Rightarrow> bool) \<Rightarrow> ('s, 'a) Stream \<Rightarrow> 's \<Rightarrow> ((exception + 'a option) \<times> 's) option" where
  "MinBuilder_build compare S s =
     (case throw_if_endless S s of
        Inl e \<Rightarrow> Some (Inl e, s)
      | Inr _ \<Rightarrow> do {
          (r, s1) \<leftarrow> next S s;
          MinBuilder_loop compare S s1 (if r then Some (front S s1) else None) })"

partial_function (option) MaxBuilder_loop ::
    "('a \<Rightarrow> 'a \<Rightarrow> bool) \<Rightarrow> ('s, 'a) Stream \<Rightarrow> 's \<Rightarrow> 'a option \<Rightarrow> ((exception + 'a option) \<times> 's) option" where
  "MaxBuilder_loop compare S s init = do {
     (r, s') \<leftarrow> next S s;
     if r then
       (if init = None then Some (Inl bad_optional_access, s')
        else MaxBuilder_loop compare S s' (Some (std_max (front S s') (the init) compare)))
     else Some (Inr init, s') }"

definition MaxBuilder_build ::
    "('a \<Rightarrow> 'a \<Rightarrow> bool) \<Rightarrow> ('s, 'a) Stream \<Rightarrow> 's \<Rightarrow> ((exception + 'a option) \<times> 's) option" where
  "MaxBuilder_build compare S s =
     (case throw_if_endless S s of
        Inl e \<Rightarrow> Some (Inl e, s)
      | Inr _ \<Rightarrow> do {
          (r, s1) \<leftarrow> next S s;
          MaxBuilder_loop compare S s1 (if r then Some (front S s1) else None) })"

text \<open>\<^verbatim>\<open>MinMaxBuilder\<close>.\<close>

partial_function (option) MinMaxBuilder_loop ::
    "('a \<Rightarrow> 'a \<Rightarrow> bool) \<Rightarrow> ('s, 'a) Stream \<Rightarrow> 's \<Rightarrow> 'a \<Rightarrow> 'a \<Rightarrow> (('a \<times> 'a) \<times> 's) option" where
  "MinMaxBuilder_loop compare S s mn mx = do {
     (r, s') \<leftarrow> next S s;
     if r then MinMaxBuilder_loop compare S s'
                 (std_min (front S s') mn compare) (std_max (front S s') mx compare)
     else Some ((mn, mx), s') }"

definition MinMaxBuilder_build ::
    "('a \<Rightarrow> 'a \<Rightarrow> bool) \<Rightarrow> ('s, 'a) Stream \<Rightarrow> 's \<Rightarrow> ((exception + ('a \<times> 'a) option) \<times> 's) option" where
  "MinMaxBuilder_build compare S s =
     (case throw_if_endless S s of
        Inl e \<Rightarrow> Some (Inl e, s)
      | Inr _ \<Rightarrow> do {
          (r, s1) \<leftarrow> next S s;
          if r then do {
            (p, s2) \<leftarrow> MinMaxBuilder_loop compare S s1 (front S s1) (front S s1);
            Some (Inr (Some p), s2) }
          else Some (Inr None, s1) })"

text \<open>
  \<^verbatim>\<open>AllMatchBuilder\<close>, \<^verbatim>\<open>AnyMatchBuilder\<close> and \<^verbatim>\<open>NoneMatchBuilder\<close>.  (The factories
  \<^verbatim>\<open>all_match\<close>, \<^verbatim>\<open>any_match\<close> and \<^verbatim>\<open>none_match\<close> name builders \<^verbatim>\<open>FindAllBuilder\<close>, \<^verbatim>\<open>FindAnyBuilder\<close>
  and \<^verbatim>\<open>FindNoneBuilder\<close> that the header does not declare; the builders below are the
  ones it declares.)
\<close>

partial_function (option) AllMatchBuilder_loop ::
    "('a \<Rightarrow> bool) \<Rightarrow> ('s, 'a) Stream \<Rightarrow> 's \<Rightarrow> (bool \<times> 's) option" where
  "AllMatchBuilder_loop pred S s = do {
     (r, s') \<leftarrow> next S s;
     if r then (if \<not> pred (front S s') then Some (False, s') else AllMatchBuilder_loop pred S s')
     else Some (True, s') }"

definition AllMatchBuilder_build ::
    "('a \<Rightarrow> bool) \<Rightarrow> ('s, 'a) Stream \<Rightarrow> 's \<Rightarrow> ((exception + bool) \<times> 's) option" where
  "AllMatchBuilder_build pred S s =
     (case throw_if_endless S s of
        Inl e \<Rightarrow> Some (Inl e, s)
      | Inr _ \<Rightarrow> do { (b, s') \<leftarrow> AllMatchBuilder_loop pred S s; Some (Inr b, s') })"

partial_function (option) AnyMatchBuilder_loop ::
    "('a \<Rightarrow> bool) \<Rightarrow> ('s, 'a) Stream \<Rightarrow> 's \<Rightarrow> (bool \<times> 's) option" where
  "AnyMatchBuilder_loop pred S s = do {
     (r, s') \<leftarrow> next S s;
     if r then (if pred (front S s') then Some (True, s') else AnyMatchBuilder_loop pred S s')
     else Some (False, s') }"

definition AnyMatchBuilder_build ::
    "('a \<Rightarrow> bool) \<Rightarrow> ('s, 'a) Stream \<Rightarrow> 's \<Rightarrow> ((exception + bool) \<times> 's) option" where
  "AnyMatchBuilder_build pred S s =
     (case throw_if_endless S s of
        Inl e \<Rightarrow> Some (Inl e, s)
      | Inr _ \<Rightarrow> do { (b, s') \<leftarrow> AnyMatchBuilder_loop pred S s; Some (Inr b, s') })"

partial_function (option) NoneMatchBuilder_loop ::
    "('a \<Rightarrow> bool) \<Rightarrow> ('s, 'a) Stream \<Rightarrow> 's \<Rightarrow> (bool \<times> 's) option" where
  "NoneMatchBuilder_loop pred S s = do {
     (r, s') \<leftarrow> next S s;
     if r then (if pred (front S s') then Some (False, s') else NoneMatchBuilder_loop pred S s')
     else Some (True, s') }"

definition NoneMatchBuilder_build ::
    "('a \<Rightarrow> bool) \<Rightarrow> ('s, 'a) Stream \<Rightarrow> 's \<Rightarrow> ((exception + bool) \<times> 's) option" where
  "NoneMatchBuilder_build pred S s =
     (case throw_if_endless S s of
        Inl e \<Rightarrow> Some (Inl e, s)
      | Inr _ \<Rightarrow> do { (b, s') \<leftarrow> NoneMatchBuilder_loop pred S s; Some (Inr b, s') })"

text \<open>
  \<^verbatim>\<open>first\<close> is the builder of the lambda
  \<^verbatim>\<open>stream.next() ? std::optional(stream.front()) : std::nullopt\<close>, and \<^verbatim>\<open>element_at(pos)\<close> is
  \<^verbatim>\<open>stream >> skip(pos) >> first()\<close>.  Neither calls \<^verbatim>\<open>throw_if_endless\<close>.
\<close>

definition first_build :: "('s, 'a) Stream \<Rightarrow> 's \<Rightarrow> ((exception + 'a option) \<times> 's) option" where
  "first_build S s = do {
     (r, s') \<leftarrow> next S s;
     Some (Inr (if r then Some (front S s') else None), s') }"

definition element_at_build ::
    "'w::len word \<Rightarrow> ('s, 'a) Stream \<Rightarrow> 's \<Rightarrow> ((exception + 'a option) \<times> ('s, 'w word) SkipStream) option" where
  "element_at_build pos S s = first_build (SkipStream_ops S) (SkipStream_init s pos)"

text \<open>Whether a call of a terminal operation ends with the \<^verbatim>\<open>endless_stream_exception\<close>.\<close>

fun raises_endless :: "((exception + 'r) \<times> 's) option \<Rightarrow> bool" where
  "raises_endless (Some (Inl endless_stream_exception, s)) = True"
| "raises_endless _ = False"

section \<open>Vocabulary of the properties\<close>

text \<open>
  A comparator as \<^verbatim>\<open>std::min\<close>, \<^verbatim>\<open>std::max\<close> and \<^verbatim>\<open>std::stable_sort\<close> require it: a strict
  weak ordering.  Two elements are equivalent (equally ranked) when neither precedes
  the other.
\<close>

definition strict_weak_order :: "('a \<Rightarrow> 'a \<Rightarrow> bool) \<Rightarrow> bool" where
  "strict_weak_order compare \<longleftrightarrow>
     (\<forall>a. \<not> compare a a) \<and>
     (\<forall>a b c. compare a b \<longrightarrow> compare b c \<longrightarrow> compare a c) \<and>
     (\<forall>a b c. \<not> compare a b \<longrightarrow> \<not> compare b c \<longrightarrow> \<not> compare a c)"

definition is_minimal :: "('a \<Rightarrow> 'a \<Rightarrow> bool) \<Rightarrow> 'a list \<Rightarrow> 'a \<Rightarrow> bool" where
  "is_minimal compare xs x = list_all (\<lambda>y. \<not> compare y x) xs"

definition is_maximal :: "('a \<Rightarrow> 'a \<Rightarrow> bool) \<Rightarrow> 'a list \<Rightarrow> 'a \<Rightarrow> bool" where
  "is_maximal compare xs x = list_all (\<lambda>y. \<not> compare x y) xs"

definition equivalent :: "('a \<Rightarrow> 'a \<Rightarrow> bool) \<Rightarrow> 'a \<Rightarrow> 'a \<Rightarrow> bool" where
  "equivalent compare a b \<longleftrightarrow> \<not> compare a b \<and> \<not> compare b a"

text \<open>
  The first and the last element, in the order of the list, among the minimal ones, and
  likewise among the maximal ones.  \<open>first_minimal\<close> and \<open>first_maximal\<close> follow the
  words of the specification ("the first encountered equally-ranked element is
  retained"); they are compared with what \<^verbatim>\<open>MinBuilder\<close> and \<^verbatim>\<open>MaxBuilder\<close> compute.
\<close>

definition first_minimal :: "('a \<Rightarrow> 'a \<Rightarrow> bool) \<Rightarrow> 'a list \<Rightarrow> 'a option" where
  "first_minimal compare xs = find (is_minimal compare xs) xs"

definition last_minimal :: "('a \<Rightarrow> 'a \<Rightarrow> bool) \<Rightarrow> 'a list \<Rightarrow> 'a option" where
  "last_minimal compare xs = find (is_minimal compare xs) (rev xs)"

definition first_maximal :: "('a \<Rightarrow> 'a \<Rightarrow> bool) \<Rightarrow> 'a list \<Rightarrow> 'a option" where
  "first_maximal compare xs = find (is_maximal compare xs) xs"

definition last_maximal :: "('a \<Rightarrow> 'a \<Rightarrow> bool) \<Rightarrow> 'a list \<Rightarrow> 'a option" where
  "last_maximal compare xs = find (is_maximal compare xs) (rev xs)"

text \<open>A comparator for tests: pairs are ranked by their first component alone.\<close>

definition by_first :: "nat \<times> nat \<Rightarrow> nat \<times> nat \<Rightarrow> bool" where
  "by_first a b \<longleftrightarrow> fst a < fst b"

text \<open>
  Streams for tests: a container of three streams over the containers \<open>[1]\<close>, \<open>[]\<close> and
  \<open>[2]\<close>, the first of which has yielded its element, and the lazy flat combinator
  over it.
\<close>

abbreviation spent_1 :: "int IteratorStream" where
  "spent_1 \<equiv> IteratorStream [1] 0 1 1 False"

abbreviation outer_at :: "nat \<Rightarrow> nat \<Rightarrow> int IteratorStream IteratorStream" where
  "outer_at current upcoming \<equiv>
     IteratorStream [spent_1, from_container [], from_container [2]] current upcoming 3 False"

abbreviation flat_ops :: "(int IteratorStream IteratorStream EndlessFlatStream, int) Stream" where
  "flat_ops \<equiv> EndlessFlatStream_ops IteratorStream_ops IteratorStream_put IteratorStream_ops"

section \<open>Basic facts\<close>

lemma drain_Nil: "drain S s = Some ([], e) \<longleftrightarrow> next S s = Some (False, e)"
  by (subst drain.simps) (auto split: Option.bind_splits prod.splits if_splits)

lemma drain_Cons:
  "drain S s = Some (x # xs, e) \<longleftrightarrow>
     (\<exists>s'. next S s = Some (True, s') \<and> front S s' = x \<and> drain S s' = Some (xs, e))"
  by (subst drain.simps) (auto split: Option.bind_splits prod.splits if_splits)

lemma count_loop_drain:
  "drain S s = Some (xs, e) \<Longrightarrow> CountBuilder_loop S s c = Some (c + of_nat (length xs), e)"
proof (induction xs arbitrary: s c)
  case Nil
  then show ?case by (subst CountBuilder_loop.simps) (simp add: drain_Nil)
next
  case (Cons x xs)
  then obtain s' where s': "next S s = Some (True, s')" "drain S s' = Some (xs, e)"
    by (auto simp: drain_Cons)
  show ?case
    by (subst CountBuilder_loop.simps) (simp add: s' Cons.IH [OF s'(2)] ac_simps)
qed

lemma take_ops_simps [simp]:
  "next (TakeStream_ops S) = TakeStream_next S"
  "front (TakeStream_ops S) = TakeStream_front S"
  "endless (TakeStream_ops S) t = False"
  by (simp_all add: TakeStream_ops_def)

lemma take_drain:
  "drain S s = Some (xs, e) \<Longrightarrow> cnt \<noteq> 0 \<Longrightarrow>
   \<exists>t. drain (TakeStream_ops S) (TakeStream s cnt) = Some (take (unat cnt - 1) xs, t)"
proof (induction xs arbitrary: s cnt)
  case Nil
  then show ?case by (simp add: drain_Nil)
next
  case (Cons x xs)
  then obtain s' where s': "next S s = Some (True, s')" "front S s' = x" "drain S s' = Some (xs, e)"
    by (auto simp: drain_Cons)
  show ?case
  proof (cases "cnt - 1 = 0")
    case True
    then have "unat cnt - 1 = 0" by (metis unat_0 unat_minus_one Cons.prems(2))
    with True Cons.prems(2) show ?thesis by (simp add: drain_Nil)
  next
    case False
    from Cons.IH [OF s'(3) False] obtain t where
      t: "drain (TakeStream_ops S) (TakeStream s' (cnt - 1)) = Some (take (unat (cnt - 1) - 1) xs, t)" ..
    have "unat (cnt - 1) \<noteq> 0" using False by (simp add: unat_eq_0)
    moreover have "unat (cnt - 1) = unat cnt - 1" using Cons.prems(2) by (simp add: unat_minus_one)
    ultimately have "unat cnt - 1 = Suc (unat (cnt - 1) - 1)" by simp
    then show ?thesis using False Cons.prems(2) s' t by (simp add: drain_Cons)
  qed
qed

lemma advances_take_zero:
  "advances (TakeStream_ops S) k (TakeStream s (0::'w::len word)) = Some (replicate k False, TakeStream s 0)"
  by (induction k) simp_all

lemma swo_irrefl: "strict_weak_order compare \<Longrightarrow> \<not> compare a a"
  unfolding strict_weak_order_def by blast

lemma swo_asym: "strict_weak_order compare \<Longrightarrow> compare a b \<Longrightarrow> \<not> compare b a"
  unfolding strict_weak_order_def by blast

lemma swo_negtrans:
  "strict_weak_order compare \<Longrightarrow> \<not> compare a b \<Longrightarrow> \<not> compare b c \<Longrightarrow> \<not> compare a c"
  unfolding strict_weak_order_def by blast

lemma find_split:
  "find P xs = Some m \<Longrightarrow> \<exists>as bs. xs = as @ m # bs \<and> P m \<and> (\<forall>a\<in>set as. \<not> P a)"
proof (induction xs)
  case Nil
  then show ?case by simp
next
  case (Cons x xs)
  show ?case
  proof (cases "P x")
    case True
    with Cons.prems have "x = m" by simp
    with True show ?thesis by (intro exI [of _ "[]"] exI [of _ xs]) simp
  next
    case False
    with Cons obtain as bs where "xs = as @ m # bs" "P m" "\<forall>a\<in>set as. \<not> P a" by auto
    with False show ?thesis by (intro exI [of _ "x # as"] exI [of _ bs]) simp
  qed
qed

lemma find_at_split: "P m \<Longrightarrow> \<forall>a\<in>set as. \<not> P a \<Longrightarrow> find P (as @ m # bs) = Some m"
  by (induction as) simp_all

lemma min_fold_last_minimal:
  assumes "strict_weak_order compare"
  shows "find (is_minimal compare (v # xs)) (rev (v # xs)) =
           Some (foldl (\<lambda>acc x. std_min x acc compare) v xs)"
proof (induction xs rule: rev_induct)
  case Nil
  from swo_irrefl [OF assms] show ?case by (simp add: is_minimal_def)
next
  case (snoc x ys)
  let ?m = "foldl (\<lambda>acc x. std_min x acc compare) v ys"
  from find_split [OF snoc.IH] obtain as bs where
    sp: "rev (v # ys) = as @ ?m # bs" "is_minimal compare (v # ys) ?m"
        "\<forall>a\<in>set as. \<not> is_minimal compare (v # ys) a" by blast
  have new: "is_minimal compare (v # ys @ [x]) z \<longleftrightarrow> is_minimal compare (v # ys) z \<and> \<not> compare x z" for z
    by (auto simp: is_minimal_def)
  have m_in: "?m \<in> set (v # ys)" 
  proof -
    have "?m \<in> set (rev (v # ys))" unfolding sp(1) by simp
    then show ?thesis by simp
  qed
  show ?case
  proof (cases "compare ?m x")
    case True
    have "\<not> compare x ?m" using True assms by (rule swo_asym [rotated])
    then have "is_minimal compare (v # ys @ [x]) ?m" using sp(2) new by simp
    moreover have "\<forall>a\<in>set as. \<not> is_minimal compare (v # ys @ [x]) a" using sp(3) new by simp
    moreover have "\<not> is_minimal compare (v # ys @ [x]) x"
      using True m_in by (auto simp: is_minimal_def list_all_iff)
    ultimately have "find (is_minimal compare (v # ys @ [x])) (x # as @ ?m # bs) = Some ?m"
      by (simp add: find_at_split)
    with sp(1) True show ?thesis by (simp add: std_min_def)
  next
    case False
    have "\<not> compare y x" if "y \<in> set (v # ys)" for y
    proof -
      have "\<not> compare y ?m" using sp(2) that by (auto simp: is_minimal_def list_all_iff)
      from swo_negtrans [OF assms this False] show ?thesis .
    qed
    moreover have "\<not> compare x x" using assms by (rule swo_irrefl)
    ultimately have "is_minimal compare (v # ys @ [x]) x"
      by (auto simp: is_minimal_def list_all_iff)
    with False show ?thesis by (simp add: std_min_def)
  qed
qed

lemma max_fold_last_maximal:
  assumes "strict_weak_order compare"
  shows "find (is_maximal compare (v # xs)) (rev (v # xs)) =
           Some (foldl (\<lambda>acc x. std_max x acc compare) v xs)"
proof (induction xs rule: rev_induct)
  case Nil
  from swo_irrefl [OF assms] show ?case by (simp add: is_maximal_def)
next
  case (snoc x ys)
  let ?m = "foldl (\<lambda>acc x. std_max x acc compare) v ys"
  from find_split [OF snoc.IH] obtain as bs where
    sp: "rev (v # ys) = as @ ?m # bs" "is_maximal compare (v # ys) ?m"
        "\<forall>a\<in>set as. \<not> is_maximal compare (v # ys) a" by blast
  have new: "is_maximal compare (v # ys @ [x]) z \<longleftrightarrow> is_maximal compare (v # ys) z \<and> \<not> compare z x" for z
    by (auto simp: is_maximal_def)
  have m_in: "?m \<in> set (v # ys)" 
  proof -
    have "?m \<in> set (rev (v # ys))" unfolding sp(1) by simp
    then show ?thesis by simp
  qed
  show ?case
  proof (cases "compare x ?m")
    case True
    have "\<not> compare ?m x" using True assms by (rule swo_asym [rotated])
    then have "is_maximal compare (v # ys @ [x]) ?m" using sp(2) new by simp
    moreover have "\<forall>a\<in>set as. \<not> is_maximal compare (v # ys @ [x]) a" using sp(3) new by simp
    moreover have "\<not> is_maximal compare (v # ys @ [x]) x"
      using True m_in by (auto simp: is_maximal_def list_all_iff)
    ultimately have "find (is_maximal compare (v # ys @ [x])) (x # as @ ?m # bs) = Some ?m"
      by (simp add: find_at_split)
    with sp(1) True show ?thesis by (simp add: std_max_def)
  next
    case False
    have "\<not> compare x y" if "y \<in> set (v # ys)" for y
    proof -
      have "\<not> compare ?m y" using sp(2) that by (auto simp: is_maximal_def list_all_iff)
      from swo_negtrans [OF assms False this] show ?thesis .
    qed
    moreover have "\<not> compare x x" using assms by (rule swo_irrefl)
    ultimately have "is_maximal compare (v # ys @ [x]) x"
      by (auto simp: is_maximal_def list_all_iff)
    with False show ?thesis by (simp add: std_max_def)
  qed
qed

lemma IteratorStream_ops_simps [simp]:
  "next IteratorStream_ops = IteratorStream_next"
  "front IteratorStream_ops = IteratorStream_front"
  "endless IteratorStream_ops = IteratorStream_endless"
  by (simp_all add: IteratorStream_ops_def)

lemma drain_IteratorStream:
  "upcoming \<le> length c \<Longrightarrow>
   drain IteratorStream_ops (IteratorStream c current upcoming (length c) unchecked) =
     Some (drop upcoming c,
           IteratorStream c (if upcoming = length c then current else length c - 1)
             (length c) (length c) unchecked)"
proof (induction "length c - upcoming" arbitrary: current upcoming)
  case 0
  then show ?case by (simp add: drain_Nil)
next
  case (Suc k)
  then have lt: "upcoming < length c" by simp
  have IH: "drain IteratorStream_ops (IteratorStream c upcoming (Suc upcoming) (length c) unchecked) =
     Some (drop (Suc upcoming) c,
           IteratorStream c (if Suc upcoming = length c then upcoming else length c - 1)
             (length c) (length c) unchecked)"
    using Suc.hyps(1) [of "Suc upcoming" upcoming] Suc.hyps(2) lt by simp
  have "drop upcoming c = c ! upcoming # drop (Suc upcoming) c"
    using lt by (simp add: Cons_nth_drop_Suc)
  moreover have "(if Suc upcoming = length c then upcoming else length c - 1) = length c - 1"
    using lt by auto
  ultimately show ?case using lt IH by (simp add: drain_Cons)
qed

lemma drain_from_container:
  "drain IteratorStream_ops (from_container c) =
     Some (c, IteratorStream c (length c - 1) (length c) (length c) False)"
  using drain_IteratorStream [of 0 c 0 False] by (simp add: from_container_def)

lemma from_container_stays_exhausted:
  "next IteratorStream_ops (IteratorStream c current (length c) (length c) unchecked) =
     Some (False, IteratorStream c current (length c) (length c) unchecked)"
  by simp

lemma take_count:
  assumes "drain S s = Some (xs, e)" and "n \<noteq> - 1"
  shows "\<exists>t. CountBuilder_build c (TakeStream_ops S) (TakeStream_init s n) =
           Some (Inr (c + of_nat (min (unat n) (length xs))), t)"
proof -
  have nz: "n + 1 \<noteq> 0" using assms(2) by (metis ab_left_minus minus_add_cancel)
  have "unat (n + 1) \<noteq> 0" using nz by (simp add: unat_eq_0)
  moreover have "unat n = unat (n + 1) - 1" using unat_minus_one [OF nz] by simp
  ultimately have "unat (n + 1) - 1 = unat n" by simp
  with take_drain [OF assms(1) nz] obtain t where
    "drain (TakeStream_ops S) (TakeStream s (n + 1)) = Some (take (unat n) xs, t)" by auto
  from count_loop_drain [OF this, of c] show ?thesis
    by (simp add: CountBuilder_build_def throw_if_endless_def TakeStream_init_def min.commute)
qed

lemma SkipStream_ops_simps [simp]:
  "next (SkipStream_ops S) = SkipStream_next S"
  "front (SkipStream_ops S) = SkipStream_front S"
  "endless (SkipStream_ops S) = SkipStream_endless S"
  by (simp_all add: SkipStream_ops_def)

lemma SkipStream_loop_zero [simp]: "SkipStream_loop S s 0 = Some (s, 0)"
  by (subst SkipStream_loop.simps) simp

lemma skip_zero_drain:
  "drain S s = Some (xs, e) \<Longrightarrow>
   \<exists>t. drain (SkipStream_ops S) (SkipStream s (0 :: 'w::len word)) = Some (xs, t)"
proof (induction xs arbitrary: s)
  case Nil
  then show ?case by (simp add: drain_Nil)
next
  case (Cons x xs)
  then obtain s' where s': "next S s = Some (True, s')" "front S s' = x" "drain S s' = Some (xs, e)"
    by (auto simp: drain_Cons)
  from Cons.IH [OF s'(3)] obtain t where
    "drain (SkipStream_ops S) (SkipStream s' (0 :: 'w word)) = Some (xs, t)" ..
  with s' show ?case by (simp add: drain_Cons)
qed

lemma skip_loop_drain:
  "drain S s = Some (xs, e) \<Longrightarrow> next S e = Some (False, e) \<Longrightarrow> cnt \<noteq> 0 \<Longrightarrow>
   \<exists>s1 c1. SkipStream_loop S s cnt = Some (s1, c1) \<and>
           drain S s1 = Some (drop (unat cnt - 1) xs, e) \<and>
           (c1 = 0 \<or> drop (unat cnt - 1) xs = [])"
proof (induction xs arbitrary: s cnt)
  case Nil
  then have n: "next S s = Some (False, e)" by (simp add: drain_Nil)
  have e: "drain S e = Some ([], e)" using Nil.prems(2) by (simp add: drain_Nil)
  show ?case
  proof (cases "cnt - 1 = 0")
    case True
    with Nil show ?thesis by (subst SkipStream_loop.simps) simp
  next
    case False
    with Nil.prems(3) n e show ?thesis by (subst SkipStream_loop.simps) simp
  qed
next
  case (Cons x xs)
  then obtain s' where s': "next S s = Some (True, s')" "front S s' = x" "drain S s' = Some (xs, e)"
    by (auto simp: drain_Cons)
  show ?case
  proof (cases "cnt - 1 = 0")
    case True
    then have "unat cnt - 1 = 0" by (metis unat_0 unat_minus_one Cons.prems(3))
    with True Cons.prems show ?thesis by (subst SkipStream_loop.simps) simp
  next
    case False
    from Cons.IH [OF s'(3) Cons.prems(2) False] obtain s1 c1 where
      IH: "SkipStream_loop S s' (cnt - 1) = Some (s1, c1)"
          "drain S s1 = Some (drop (unat (cnt - 1) - 1) xs, e)"
          "c1 = 0 \<or> drop (unat (cnt - 1) - 1) xs = []" by blast
    have "unat (cnt - 1) \<noteq> 0" using False by (simp add: unat_eq_0)
    moreover have "unat (cnt - 1) = unat cnt - 1" using Cons.prems(3) by (simp add: unat_minus_one)
    ultimately have "unat cnt - 1 = Suc (unat (cnt - 1) - 1)" by simp
    with IH False Cons.prems(3) s' show ?thesis by (subst SkipStream_loop.simps) simp
  qed
qed

lemma skip_drain:
  assumes "drain S s = Some (xs, e)" and "next S e = Some (False, e)" and "(cnt :: 'w::len word) \<noteq> 0"
  shows "\<exists>t. drain (SkipStream_ops S) (SkipStream s cnt) = Some (drop (unat cnt - 1) xs, t)"
proof -
  from skip_loop_drain [OF assms] obtain s1 c1 where
    l: "SkipStream_loop S s cnt = Some (s1, c1)"
       "drain S s1 = Some (drop (unat cnt - 1) xs, e)"
       "c1 = 0 \<or> drop (unat cnt - 1) xs = []" by blast
  show ?thesis
  proof (cases "drop (unat cnt - 1) xs")
    case Nil
    with l show ?thesis by (simp add: drain_Nil)
  next
    case (Cons y ys)
    with l(2) obtain s2 where
      s2: "next S s1 = Some (True, s2)" "front S s2 = y" "drain S s2 = Some (ys, e)"
      by (auto simp: drain_Cons)
    from l(3) Cons have c1: "c1 = 0" by auto
    from skip_zero_drain [OF s2(3)] obtain t where
      "drain (SkipStream_ops S) (SkipStream s2 (0 :: 'w word)) = Some (ys, t)" ..
    with Cons l(1) s2 c1 show ?thesis by (simp add: drain_Cons)
  qed
qed

lemma word_succ_neq_0: "(n :: 'w::len word) \<noteq> - 1 \<Longrightarrow> n + 1 \<noteq> 0"
  by (metis ab_left_minus minus_add_cancel)

lemma unat_succ_minus_1: "(n :: 'w::len word) \<noteq> - 1 \<Longrightarrow> unat (n + 1) - 1 = unat n"
  using unat_minus_one [OF word_succ_neq_0, of n] by simp

lemma skip_take_drain:
  assumes "drain S s = Some (xs, e)" and "next S e = Some (False, e)"
    and "n \<noteq> - 1" and "m \<noteq> - 1"
  shows "\<exists>t. drain (TakeStream_ops (SkipStream_ops S)) (TakeStream_init (SkipStream_init s n) m) =
           Some (take (unat m) (drop (unat n) xs), t)"
proof -
  from skip_drain [OF assms(1,2) word_succ_neq_0 [OF assms(3)]]
  have "\<exists>t. drain (SkipStream_ops S) (SkipStream s (n + 1)) = Some (drop (unat n) xs, t)"
    unfolding unat_succ_minus_1 [OF assms(3)] .
  then obtain t where
    "drain (SkipStream_ops S) (SkipStream s (n + 1)) = Some (drop (unat n) xs, t)" ..
  from take_drain [OF this word_succ_neq_0 [OF assms(4)]] show ?thesis
    unfolding unat_succ_minus_1 [OF assms(4)] TakeStream_init_def SkipStream_init_def .
qed

lemma skip_take_length:
  "int (length (take m (drop n xs))) = max 0 (min (int m) (int (length xs) - int n))"
  by auto

lemma skip_take_count:
  assumes "drain S s = Some (xs, e)" and "next S e = Some (False, e)"
    and "n \<noteq> - 1" and "m \<noteq> - 1"
  shows "\<exists>t. CountBuilder_build c (TakeStream_ops (SkipStream_ops S))
                (TakeStream_init (SkipStream_init s n) m) =
           Some (Inr (c + of_nat (min (unat m) (length xs - unat n))), t)"
proof -
  from skip_take_drain [OF assms] obtain t where
    "drain (TakeStream_ops (SkipStream_ops S)) (TakeStream_init (SkipStream_init s n) m) =
       Some (take (unat m) (drop (unat n) xs), t)" ..
  from count_loop_drain [OF this, of c] show ?thesis
    by (simp add: CountBuilder_build_def throw_if_endless_def min.commute)
qed

lemma take_at_most:
  assumes "drain S s = Some (xs, e)"
  shows "\<exists>ys t. drain (TakeStream_ops S) (TakeStream_init s (n :: 'w::len word)) = Some (ys, t) \<and>
                length ys \<le> unat n"
proof (cases "n = - 1")
  case True
  have "drain (TakeStream_ops S) (TakeStream s (0 :: 'w word)) = Some ([], TakeStream s 0)"
    by (simp add: drain_Nil)
  with True show ?thesis by (simp add: TakeStream_init_def)
next
  case False
  from take_drain [OF assms word_succ_neq_0 [OF False]] show ?thesis
    unfolding unat_succ_minus_1 [OF False] TakeStream_init_def by auto
qed

lemma MinBuilder_loop_drain:
  "drain S s = Some (xs, e) \<Longrightarrow>
   MinBuilder_loop compare S s (Some v) =
     Some (Inr (Some (foldl (\<lambda>acc x. std_min x acc compare) v xs)), e)"
proof (induction xs arbitrary: s v)
  case Nil
  then show ?case by (subst MinBuilder_loop.simps) (simp add: drain_Nil)
next
  case (Cons x xs)
  then obtain s' where s': "next S s = Some (True, s')" "front S s' = x" "drain S s' = Some (xs, e)"
    by (auto simp: drain_Cons)
  show ?case
    by (subst MinBuilder_loop.simps) (simp add: s' Cons.IH [OF s'(3)])
qed

lemma MaxBuilder_loop_drain:
  "drain S s = Some (xs, e) \<Longrightarrow>
   MaxBuilder_loop compare S s (Some v) =
     Some (Inr (Some (foldl (\<lambda>acc x. std_max x acc compare) v xs)), e)"
proof (induction xs arbitrary: s v)
  case Nil
  then show ?case by (subst MaxBuilder_loop.simps) (simp add: drain_Nil)
next
  case (Cons x xs)
  then obtain s' where s': "next S s = Some (True, s')" "front S s' = x" "drain S s' = Some (xs, e)"
    by (auto simp: drain_Cons)
  show ?case
    by (subst MaxBuilder_loop.simps) (simp add: s' Cons.IH [OF s'(3)])
qed

lemma MinBuilder_build_drain:
  assumes "drain S s = Some (x # xs, e)" and "\<not> endless S s"
  shows "MinBuilder_build compare S s =
           Some (Inr (Some (foldl (\<lambda>acc x. std_min x acc compare) x xs)), e)"
proof -
  from assms(1) obtain s' where
    s': "next S s = Some (True, s')" "front S s' = x" "drain S s' = Some (xs, e)"
    by (auto simp: drain_Cons)
  with assms(2) MinBuilder_loop_drain [OF s'(3)] show ?thesis
    by (simp add: MinBuilder_build_def throw_if_endless_def)
qed

lemma MaxBuilder_build_drain:
  assumes "drain S s = Some (x # xs, e)" and "\<not> endless S s"
  shows "MaxBuilder_build compare S s =
           Some (Inr (Some (foldl (\<lambda>acc x. std_max x acc compare) x xs)), e)"
proof -
  from assms(1) obtain s' where
    s': "next S s = Some (True, s')" "front S s' = x" "drain S s' = Some (xs, e)"
    by (auto simp: drain_Cons)
  with assms(2) MaxBuilder_loop_drain [OF s'(3)] show ?thesis
    by (simp add: MaxBuilder_build_def throw_if_endless_def)
qed

lemma strict_weak_order_by_first: "strict_weak_order by_first"
  unfolding strict_weak_order_def by_first_def by auto

lemma push_back_loop_drain:
  "drain S s = Some (xs, e) \<Longrightarrow> push_back_loop S s buffer = Some (e, buffer @ xs)"
proof (induction xs arbitrary: s buffer)
  case Nil
  then show ?case by (subst push_back_loop.simps) (simp add: drain_Nil)
next
  case (Cons x xs)
  then obtain s' where s': "next S s = Some (True, s')" "front S s' = x" "drain S s' = Some (xs, e)"
    by (auto simp: drain_Cons)
  show ?case
    by (subst push_back_loop.simps) (simp add: s' Cons.IH [OF s'(3)])
qed

lemma SortStream_ops_simps [simp]:
  "next (SortStream_ops S compare) = SortStream_next S compare"
  "front (SortStream_ops S compare) = SortStream_front"
  "endless (SortStream_ops S compare) = SortStream_endless S"
  by (simp_all add: SortStream_ops_def)

lemma SortStream_serve:
  "0 < current \<Longrightarrow> current \<le> length buf \<Longrightarrow>
   drain (SortStream_ops S compare) (SortStream e buf current) =
     Some (drop current buf, SortStream e buf (Suc (length buf)))"
proof (induction "length buf - current" arbitrary: current)
  case 0
  then have "current = length buf" by simp
  with "0.prems" show ?case by (simp add: drain_Nil)
next
  case (Suc k)
  then have lt: "current < length buf" by simp
  have IH: "drain (SortStream_ops S compare) (SortStream e buf (Suc current)) =
      Some (drop (Suc current) buf, SortStream e buf (Suc (length buf)))"
    using Suc.hyps(1) [of "Suc current"] Suc.hyps(2) lt by simp
  have "drop current buf = buf ! current # drop (Suc current) buf"
    using lt by (simp add: Cons_nth_drop_Suc)
  with lt Suc.prems IH show ?case by (simp add: drain_Cons)
qed

lemma mset_stable_insert: "mset (stable_insert compare x ys) = add_mset x (mset ys)"
  by (induction ys) simp_all

lemma mset_std_stable_sort: "mset (std_stable_sort compare xs) = mset xs"
  by (induction xs) (simp_all add: std_stable_sort_def mset_stable_insert)

lemma length_std_stable_sort: "length (std_stable_sort compare xs) = length xs"
  using mset_std_stable_sort [of compare xs] by (metis size_mset)

lemma set_stable_insert: "set (stable_insert compare x ys) = insert x (set ys)"
  by (induction ys) auto

lemma sorted_stable_insert:
  assumes "strict_weak_order compare"
  shows "sorted_wrt (\<lambda>a b. \<not> compare b a) ys \<Longrightarrow>
         sorted_wrt (\<lambda>a b. \<not> compare b a) (stable_insert compare x ys)"
proof (induction ys)
  case Nil
  then show ?case by simp
next
  case (Cons y ys)
  show ?case
  proof (cases "compare y x")
    case True
    have "\<not> compare x y" using swo_asym [OF assms True] .
    with True Cons show ?thesis by (auto simp: set_stable_insert)
  next
    case False
    have "\<not> compare z x" if "z \<in> set ys" for z
    proof -
      have "\<not> compare z y" using Cons.prems that by auto
      from swo_negtrans [OF assms this False] show ?thesis .
    qed
    with False Cons.prems show ?thesis by auto
  qed
qed

lemma sorted_std_stable_sort:
  "strict_weak_order compare \<Longrightarrow> sorted_wrt (\<lambda>a b. \<not> compare b a) (std_stable_sort compare xs)"
  by (induction xs) (simp_all add: std_stable_sort_def sorted_stable_insert)

lemma filter_stable_insert_other:
  "\<not> P x \<Longrightarrow> filter P (stable_insert compare x ys) = filter P ys"
  by (induction ys) simp_all

lemma filter_stable_insert_equivalent:
  assumes "strict_weak_order compare" and "equivalent compare k x"
  shows "filter (equivalent compare k) (stable_insert compare x ys) =
           x # filter (equivalent compare k) ys"
proof (induction ys)
  case Nil
  from assms(2) show ?case by simp
next
  case (Cons y ys)
  show ?case
  proof (cases "compare y x")
    case True
    have "compare y k"
    proof (rule ccontr)
      assume "\<not> compare y k"
      moreover have "\<not> compare k x" using assms(2) by (simp add: equivalent_def)
      ultimately have "\<not> compare y x" by (rule swo_negtrans [OF assms(1)])
      with True show False by simp
    qed
    then have "\<not> equivalent compare k y" by (simp add: equivalent_def)
    with True Cons show ?thesis by simp
  next
    case False
    with assms(2) show ?thesis by simp
  qed
qed

lemma stable_std_stable_sort:
  assumes "strict_weak_order compare"
  shows "filter (equivalent compare k) (std_stable_sort compare xs) = filter (equivalent compare k) xs"
proof (induction xs)
  case Nil
  show ?case by (simp add: std_stable_sort_def)
next
  case (Cons x xs)
  have unfold: "std_stable_sort compare (x # xs) = stable_insert compare x (std_stable_sort compare xs)"
    by (simp add: std_stable_sort_def)
  show ?case
  proof (cases "equivalent compare k x")
    case True
    with Cons filter_stable_insert_equivalent [OF assms True] show ?thesis by (simp add: unfold)
  next
    case False
    with Cons show ?thesis by (simp add: unfold filter_stable_insert_other)
  qed
qed

lemma guarded_endless:
  assumes "endless S s"
  shows "ForEachBuilder_build pred S s u = Some (Inl endless_stream_exception, s)"
    and "collect_build container collector S s = Some (Inl endless_stream_exception, s)"
    and "ReduceBuilder_build biPred S s = Some (Inl endless_stream_exception, s)"
    and "MinBuilder_build compare S s = Some (Inl endless_stream_exception, s)"
    and "MaxBuilder_build compare S s = Some (Inl endless_stream_exception, s)"
    and "MinMaxBuilder_build compare S s = Some (Inl endless_stream_exception, s)"
    and "AllMatchBuilder_build p S s = Some (Inl endless_stream_exception, s)"
    and "AnyMatchBuilder_build p S s = Some (Inl endless_stream_exception, s)"
    and "NoneMatchBuilder_build p S s = Some (Inl endless_stream_exception, s)"
    and "CountBuilder_build counter S s = Some (Inl endless_stream_exception, s)"
  using assms
  by (simp_all add: ForEachBuilder_build_def collect_build_def ReduceBuilder_build_def
      MinBuilder_build_def MaxBuilder_build_def MinMaxBuilder_build_def AllMatchBuilder_build_def
      AnyMatchBuilder_build_def NoneMatchBuilder_build_def CountBuilder_build_def
      throw_if_endless_def)

lemma raises_endless_iff:
  "raises_endless x \<longleftrightarrow> (\<exists>s. x = Some (Inl endless_stream_exception, s))"
  by (cases x rule: raises_endless.cases) auto

lemma ReduceBuilder_loop_no_endless:
  "ReduceBuilder_loop biPred S s init = Some y \<Longrightarrow> fst y \<noteq> Inl endless_stream_exception"
  by (erule ReduceBuilder_loop.raw_induct [rotated 1])
     (auto split: Option.bind_splits prod.splits if_splits)

lemma MinBuilder_loop_no_endless:
  "MinBuilder_loop compare S s init = Some y \<Longrightarrow> fst y \<noteq> Inl endless_stream_exception"
  by (erule MinBuilder_loop.raw_induct [rotated 1])
     (auto split: Option.bind_splits prod.splits if_splits)

lemma MaxBuilder_loop_no_endless:
  "MaxBuilder_loop compare S s init = Some y \<Longrightarrow> fst y \<noteq> Inl endless_stream_exception"
  by (erule MaxBuilder_loop.raw_induct [rotated 1])
     (auto split: Option.bind_splits prod.splits if_splits)

lemma guarded_not_endless:
  assumes "\<not> endless S s"
  shows "\<not> raises_endless (ForEachBuilder_build pred S s u)"
    and "\<not> raises_endless (collect_build container collector S s)"
    and "\<not> raises_endless (ReduceBuilder_build biPred S s)"
    and "\<not> raises_endless (MinBuilder_build compare S s)"
    and "\<not> raises_endless (MaxBuilder_build compare S s)"
    and "\<not> raises_endless (MinMaxBuilder_build compare S s)"
    and "\<not> raises_endless (AllMatchBuilder_build p S s)"
    and "\<not> raises_endless (AnyMatchBuilder_build p S s)"
    and "\<not> raises_endless (NoneMatchBuilder_build p S s)"
    and "\<not> raises_endless (CountBuilder_build counter S s)"
proof -
  show "\<not> raises_endless (ForEachBuilder_build pred S s u)"
    using assms by (auto simp: raises_endless_iff ForEachBuilder_build_def throw_if_endless_def
        split: Option.bind_splits)
  then show "\<not> raises_endless (collect_build container collector S s)"
    using assms by (auto simp: raises_endless_iff collect_build_def ForEachBuilder_build_def
        throw_if_endless_def split: Option.bind_splits)
  show "\<not> raises_endless (ReduceBuilder_build biPred S s)"
    using assms by (auto simp: raises_endless_iff ReduceBuilder_build_def throw_if_endless_def
        split: Option.bind_splits dest!: ReduceBuilder_loop_no_endless)
  show "\<not> raises_endless (MinBuilder_build compare S s)"
    using assms by (auto simp: raises_endless_iff MinBuilder_build_def throw_if_endless_def
        split: Option.bind_splits dest!: MinBuilder_loop_no_endless)
  show "\<not> raises_endless (MaxBuilder_build compare S s)"
    using assms by (auto simp: raises_endless_iff MaxBuilder_build_def throw_if_endless_def
        split: Option.bind_splits dest!: MaxBuilder_loop_no_endless)
  show "\<not> raises_endless (MinMaxBuilder_build compare S s)"
    using assms by (auto simp: raises_endless_iff MinMaxBuilder_build_def throw_if_endless_def
        split: Option.bind_splits if_splits)
  show "\<not> raises_endless (AllMatchBuilder_build p S s)"
    using assms by (auto simp: raises_endless_iff AllMatchBuilder_build_def throw_if_endless_def
        split: Option.bind_splits)
  show "\<not> raises_endless (AnyMatchBuilder_build p S s)"
    using assms by (auto simp: raises_endless_iff AnyMatchBuilder_build_def throw_if_endless_def
        split: Option.bind_splits)
  show "\<not> raises_endless (NoneMatchBuilder_build p S s)"
    using assms by (auto simp: raises_endless_iff NoneMatchBuilder_build_def throw_if_endless_def
        split: Option.bind_splits)
  show "\<not> raises_endless (CountBuilder_build counter S s)"
    using assms by (auto simp: raises_endless_iff CountBuilder_build_def throw_if_endless_def
        split: Option.bind_splits)
qed

lemma first_build_not_endless: "\<not> raises_endless (first_build S s)"
  by (auto simp: raises_endless_iff first_build_def split: Option.bind_splits)

lemma element_at_build_not_endless: "\<not> raises_endless (element_at_build pos S s)"
  by (simp add: element_at_build_def first_build_not_endless)


lemma IntegerStream_ops_simps [simp]:
  "next IntegerStream_ops = IntegerStream_next"
  "front IntegerStream_ops = IntegerStream_front"
  "endless IntegerStream_ops s = True"
  by (simp_all add: IntegerStream_ops_def)

lemma FlatStream_ops_simps [simp]:
  "next (FlatStream_ops I) = FlatStream_next I"
  "front (FlatStream_ops I) = FlatStream_front I"
  "endless (FlatStream_ops I) = FlatStream_endless I"
  by (simp_all add: FlatStream_ops_def)

lemma FlatStream_loop_end [simp]:
  "FlatStream_loop I streams (length streams) = Some (False, streams, length streams)"
  by (subst FlatStream_loop.simps) simp

lemma join_streams_endless:
  "join_streams cs = Some j \<Longrightarrow> JoinStreams_endless j = (\<exists>c\<in>set cs. constituent_endless c)"
  by (induction cs arbitrary: j rule: join_streams.induct) auto

lemma all_next_stops_at_failure:
  "constituent_next c = Some (False, c') \<Longrightarrow> all_next (c # cs) = Some (False, c' # cs)"
  by simp

lemma CombineStreams_next_absent:
  "all_next streams = Some (True, streams') \<Longrightarrow> pred (map constituent_front streams') = None \<Longrightarrow>
   CombineStreams_next pred (CombineStreams cache streams) = Some (True, CombineStreams None streams')"
  by simp

lemma CombineStreams_next_fails:
  "all_next streams = Some (False, streams') \<Longrightarrow>
   CombineStreams_next pred (CombineStreams cache streams) = Some (False, CombineStreams cache streams')"
  by simp

lemma MapStream_next_absent:
  "next S s = Some (True, s') \<Longrightarrow> pred (front S s') = None \<Longrightarrow>
   MapStream_next S pred (MapStream s cache_value) = MapStream_next S pred (MapStream s' None)"
  by (simp, subst MapStream_loop.simps) simp

lemma EndlessFlatStream_ops_simps [simp]:
  "next (EndlessFlatStream_ops S put I) = EndlessFlatStream_next S put I"
  "front (EndlessFlatStream_ops S put I) = EndlessFlatStream_front S I"
  "endless (EndlessFlatStream_ops S put I) s = True"
  by (simp_all add: EndlessFlatStream_ops_def)

lemma SkipStream_loop_ignores_endless:
  "SkipStream_loop (S\<lparr>endless := f\<rparr>) s cnt = SkipStream_loop S s cnt"
proof (induction "unat cnt" arbitrary: cnt s rule: less_induct)
  case less
  show ?case
  proof (cases "cnt = 0 \<or> cnt - 1 = 0")
    case True
    then show ?thesis
      by (subst SkipStream_loop.simps, subst (2) SkipStream_loop.simps) auto
  next
    case False
    then have "unat cnt \<noteq> 0" by (simp add: unat_eq_0)
    with False have "unat (cnt - 1) < unat cnt" by (simp add: unat_minus_one)
    then have "SkipStream_loop (S\<lparr>endless := f\<rparr>) s' (cnt - 1) = SkipStream_loop S s' (cnt - 1)" for s'
      by (rule less)
    with False show ?thesis
      by (subst SkipStream_loop.simps, subst (2) SkipStream_loop.simps) (simp cong: if_cong)
  qed
qed

lemma SkipStream_next_ignores_endless:
  "SkipStream_next (S\<lparr>endless := f\<rparr>) t = SkipStream_next S t"
  by (cases t) (simp add: SkipStream_loop_ignores_endless)

lemma first_build_ignores_endless: "first_build (S\<lparr>endless := f\<rparr>) s = first_build S s"
  by (simp add: first_build_def cong: if_cong)

lemma SkipStream_front_ignores_endless:
  "SkipStream_front (S\<lparr>endless := f\<rparr>) t = SkipStream_front S t"
  by (cases t) simp

lemma element_at_build_ignores_endless:
  "element_at_build pos (S\<lparr>endless := f\<rparr>) s = element_at_build pos S s"
  unfolding element_at_build_def first_build_def SkipStream_ops_simps
  by (simp add: SkipStream_next_ignores_endless SkipStream_front_ignores_endless cong: if_cong)

lemma first_build_one_next:
  "first_build S s =
     map_option (\<lambda>(r, s'). (Inr (if r then Some (front S s') else None), s')) (next S s)"
  by (cases "next S s") (auto simp: first_build_def)

lemma element_at_build_one_next:
  "element_at_build pos S s =
     map_option (\<lambda>(r, t). (Inr (if r then Some (front (SkipStream_ops S) t) else None), t))
       (next (SkipStream_ops S) (SkipStream_init s pos))"
  unfolding element_at_build_def by (rule first_build_one_next)

section \<open>Claims\<close>

text \<open>
  C9.  \<^verbatim>\<open>take(n)\<close> stores \<open>n + 1\<close> in the word \<^verbatim>\<open>count\<close>.  For the largest word,
  \<open>2 ^ w - 1\<close>, the sum wraps to 0, and the stream yields nothing: each of any number
  \<open>k\<close> of advances returns false and leaves the struct as it is, whatever the upstream
  \<open>S\<close> is, even one whose \<open>next\<close> never returns; so the upstream is never consulted.
\<close>

theorem take_max_word_yields_nothing:
  "unat (- 1 :: 'w::len word) = 2 ^ LENGTH('w) - 1 \<and>
   TakeStream_init s (- 1 :: 'w word) = TakeStream s 0 \<and>
   advances (TakeStream_ops S) k (TakeStream_init s (- 1 :: 'w word))
     = Some (replicate k False, TakeStream s 0) \<and>
   drain (TakeStream_ops S) (TakeStream_init s (- 1 :: 'w word)) = Some ([], TakeStream s 0)"
  by (simp add: TakeStream_init_def advances_take_zero drain_Nil
      unsigned_minus_1_eq_mask mask_eq_exp_minus_1)

text \<open>
  C5.  \<^verbatim>\<open>take(n)\<close> followed by \<^verbatim>\<open>count\<close> gives \<open>min n L\<close> on a source of length \<open>L\<close>.
  This holds for every \<open>n\<close> below the largest word (\<open>take_count\<close>), and \<^verbatim>\<open>take(n)\<close>
  never yields more than \<open>n\<close> elements (\<open>take_at_most\<close>) and is never endless.  At
  \<open>n = 2 ^ 64 - 1\<close>, on the container \<open>[7]\<close>, the count is 0 where \<open>min n L\<close> is 1.
\<close>

theorem take_max_word_count_is_zero:
  "CountBuilder_build (0::nat) (TakeStream_ops IteratorStream_ops)
     (TakeStream_init (from_container [7::int]) (- 1 :: 64 word))
     = Some (Inr 0, TakeStream (from_container [7]) 0) \<and>
   min (unat (- 1 :: 64 word)) (length [7::int]) = 1"
proof -
  have "drain (TakeStream_ops IteratorStream_ops) (TakeStream (from_container [7::int]) (0 :: 64 word))
          = Some ([], TakeStream (from_container [7]) 0)"
    by (simp add: drain_Nil)
  from count_loop_drain [OF this, of "0::nat"] show ?thesis
    by (simp add: CountBuilder_build_def throw_if_endless_def TakeStream_init_def
        unsigned_minus_1_eq_mask mask_eq_exp_minus_1)
qed

text \<open>
  C6.  \<^verbatim>\<open>skip(n)\<close> followed by \<^verbatim>\<open>take(m)\<close> yields \<open>max 0 (min m (L - n))\<close> elements of a
  source of length \<open>L\<close>.  This holds for \<open>n\<close> and \<open>m\<close> below the largest word, the
  boundaries \<open>n = 0\<close> and \<open>m = 0\<close> included (\<open>skip_take_drain\<close>, \<open>skip_take_count\<close>).
  At \<open>n = 2 ^ 64 - 1\<close> the counter of \<^verbatim>\<open>SkipStream\<close> wraps to 0 and nothing is skipped:
  with \<open>m = 1\<close> on the container \<open>[7]\<close> one element is counted where the formula gives 0.
\<close>

theorem skip_max_word_skips_nothing:
  "map_option fst
     (CountBuilder_build (0::nat) (TakeStream_ops (SkipStream_ops IteratorStream_ops))
        (TakeStream_init (SkipStream_init (from_container [7::int]) (- 1 :: 64 word)) (1 :: 64 word)))
     = Some (Inr 1) \<and>
   max 0 (min (int (unat (1 :: 64 word))) (int (length [7::int]) - int (unat (- 1 :: 64 word)))) = 0"
proof -
  from skip_zero_drain [OF drain_from_container, of "[7::int]"] obtain t where
    "drain (SkipStream_ops IteratorStream_ops) (SkipStream (from_container [7::int]) (0 :: 64 word))
       = Some ([7], t)" by blast
  from take_drain [OF this, of "2 :: 64 word"] obtain t' where
    "drain (TakeStream_ops (SkipStream_ops IteratorStream_ops))
       (TakeStream (SkipStream (from_container [7::int]) (0 :: 64 word)) (2 :: 64 word))
       = Some ([7], t')" by auto
  from count_loop_drain [OF this, of "0::nat"] show ?thesis
    by (simp add: CountBuilder_build_def throw_if_endless_def TakeStream_init_def SkipStream_init_def
        unsigned_minus_1_eq_mask mask_eq_exp_minus_1)
qed

text \<open>
  C2, as stated: on a finite non-empty stream \<^verbatim>\<open>min\<close> returns the first element, in the
  order of the stream, among the minimal ones, and \<^verbatim>\<open>max\<close> the first among the maximal
  ones.  On the container \<open>[(1, 0), (1, 1)]\<close>, ranked by the first component, both
  elements are minimal and maximal; \<^verbatim>\<open>min\<close> and \<^verbatim>\<open>max\<close> both return \<open>(1, 1)\<close>, the later one.
\<close>

theorem min_max_first_tied_counterexample:
  "map_option fst (MinBuilder_build by_first IteratorStream_ops (from_container [(1, 0), (1, 1)]))
     = Some (Inr (Some (1, 1))) \<and>
   first_minimal by_first [(1, 0), (1, 1)] = Some (1, 0) \<and>
   map_option fst (MinBuilder_build by_first IteratorStream_ops (from_container [(1, 0), (1, 1)]))
     \<noteq> Some (Inr (first_minimal by_first [(1, 0), (1, 1)])) \<and>
   map_option fst (MaxBuilder_build by_first IteratorStream_ops (from_container [(1, 0), (1, 1)]))
     = Some (Inr (Some (1, 1))) \<and>
   first_maximal by_first [(1, 0), (1, 1)] = Some (1, 0) \<and>
   map_option fst (MaxBuilder_build by_first IteratorStream_ops (from_container [(1, 0), (1, 1)]))
     \<noteq> Some (Inr (first_maximal by_first [(1, 0), (1, 1)]))"
proof -
  let ?xs = "[(1, 0), (1, 1)] :: (nat \<times> nat) list"
  have d: "drain IteratorStream_ops (from_container ?xs) = Some (?xs, IteratorStream ?xs 1 2 2 False)"
    using drain_from_container [of ?xs] by simp
  have ne: "\<not> endless IteratorStream_ops (from_container ?xs)" by (simp add: from_container_def)
  show ?thesis
    using MinBuilder_build_drain [OF d ne, of by_first] MaxBuilder_build_drain [OF d ne, of by_first]
    by (simp add: first_minimal_def first_maximal_def is_minimal_def is_maximal_def by_first_def
        std_min_def std_max_def)
qed

text \<open>
  C2, amended: for a comparator that is a strict weak ordering and a stream that is not
  endless and yields the non-empty sequence \<open>xs\<close>, \<^verbatim>\<open>min\<close> returns the last element of
  \<open>xs\<close> among the minimal ones and \<^verbatim>\<open>max\<close> the last among the maximal ones: of equally
  ranked elements the later one is kept, because \<^verbatim>\<open>std::min(front, init)\<close> and
  \<^verbatim>\<open>std::max(front, init)\<close> return their first argument on a tie.
\<close>

theorem min_max_keep_last_tied:
  assumes "strict_weak_order compare" and "drain S s = Some (xs, e)" and "xs \<noteq> []"
    and "\<not> endless S s"
  shows "\<exists>mn mx. MinBuilder_build compare S s = Some (Inr (Some mn), e) \<and>
                 last_minimal compare xs = Some mn \<and>
                 MaxBuilder_build compare S s = Some (Inr (Some mx), e) \<and>
                 last_maximal compare xs = Some mx"
proof -
  from assms(3) obtain y ys where xs: "xs = y # ys" by (cases xs) auto
  show ?thesis
    unfolding xs last_minimal_def last_maximal_def
      min_fold_last_minimal [OF assms(1)] max_fold_last_maximal [OF assms(1)]
    using MinBuilder_build_drain [OF assms(2) [unfolded xs] assms(4)]
      MaxBuilder_build_drain [OF assms(2) [unfolded xs] assms(4)]
    by simp
qed

theorem min_max_keep_last_tied_witness:
  "strict_weak_order by_first \<and>
   drain IteratorStream_ops (from_container [(1, 0), (1, 1), (2, 0), (2, 1 :: nat)])
     = Some ([(1 :: nat, 0), (1, 1), (2, 0), (2, 1)],
             IteratorStream [(1, 0), (1, 1), (2, 0), (2, 1)] 3 4 4 False) \<and>
   \<not> endless IteratorStream_ops (from_container [(1 :: nat, 0 :: nat), (1, 1), (2, 0), (2, 1)]) \<and>
   MinBuilder_build by_first IteratorStream_ops (from_container [(1, 0), (1, 1), (2, 0), (2, 1)])
     = Some (Inr (Some (1, 1)), IteratorStream [(1, 0), (1, 1), (2, 0), (2, 1)] 3 4 4 False) \<and>
   MaxBuilder_build by_first IteratorStream_ops (from_container [(1, 0), (1, 1), (2, 0), (2, 1)])
     = Some (Inr (Some (2, 1)), IteratorStream [(1, 0), (1, 1), (2, 0), (2, 1)] 3 4 4 False)"
proof -
  let ?xs = "[(1, 0), (1, 1), (2, 0), (2, 1)] :: (nat \<times> nat) list"
  have d: "drain IteratorStream_ops (from_container ?xs) = Some (?xs, IteratorStream ?xs 3 4 4 False)"
    using drain_from_container [of ?xs] by simp
  have ne: "\<not> endless IteratorStream_ops (from_container ?xs)" by (simp add: from_container_def)
  have mn: "last_minimal by_first ?xs = Some (1, 1)"
    by (simp add: last_minimal_def is_minimal_def by_first_def)
  have mx: "last_maximal by_first ?xs = Some (2, 1)"
    by (simp add: last_maximal_def is_maximal_def by_first_def)
  from min_max_keep_last_tied [OF strict_weak_order_by_first d _ ne] mn mx
  show ?thesis using strict_weak_order_by_first d ne by auto
qed

text \<open>
  C7.  Let the upstream yield the finite sequence \<open>xs\<close> and end in the struct \<open>e\<close>, and
  let the comparator be a strict weak ordering.  The first advance of \<^verbatim>\<open>sort(cmp)\<close>
  drains the whole upstream: it leaves the upstream in \<open>e\<close>, with all of \<open>xs\<close> sorted
  in the buffer.  Draining the sorted stream then serves exactly the buffer and never
  touches the upstream again.  The buffer is a permutation of \<open>xs\<close>, ordered under the
  comparator, and stable: for every \<open>k\<close> the elements equivalent to \<open>k\<close> appear in the
  order they have in \<open>xs\<close>.
\<close>

theorem sort_drains_then_serves_stably:
  assumes "drain S s = Some (xs, e)" and "strict_weak_order compare"
  shows "next (SortStream_ops S compare) (SortStream_init s) =
           Some (xs \<noteq> [], SortStream e (std_stable_sort compare xs) 1) \<and>
         drain (SortStream_ops S compare) (SortStream_init s) =
           Some (std_stable_sort compare xs,
                 SortStream e (std_stable_sort compare xs) (length xs + 1)) \<and>
         mset (std_stable_sort compare xs) = mset xs \<and>
         sorted_wrt (\<lambda>a b. \<not> compare b a) (std_stable_sort compare xs) \<and>
         (\<forall>k. filter (equivalent compare k) (std_stable_sort compare xs) =
                filter (equivalent compare k) xs)"
proof -
  let ?srt = "std_stable_sort compare xs"
  have len: "length ?srt = length xs" by (rule length_std_stable_sort)
  have first: "next (SortStream_ops S compare) (SortStream_init s) =
           Some (xs \<noteq> [], SortStream e ?srt 1)"
  proof -
    have "(?srt = []) = (xs = [])" using len by (metis length_0_conv)
    with push_back_loop_drain [OF assms(1), of "[]"] show ?thesis
      by (simp add: SortStream_init_def)
  qed
  have all: "drain (SortStream_ops S compare) (SortStream_init s) =
           Some (?srt, SortStream e ?srt (length xs + 1))"
  proof (cases xs)
    case Nil
    with first show ?thesis by (simp add: drain_Nil std_stable_sort_def)
  next
    case (Cons y ys)
    then have pos: "1 \<le> length ?srt" using len by simp
    then obtain z zs where srt: "?srt = z # zs" by (cases ?srt) auto
    have "drain (SortStream_ops S compare) (SortStream e ?srt 1) =
       Some (drop 1 ?srt, SortStream e ?srt (Suc (length ?srt)))"
      using pos by (intro SortStream_serve) simp_all
    then have "drain (SortStream_ops S compare) (SortStream e ?srt 1) =
       Some (zs, SortStream e ?srt (Suc (length xs)))"
      using srt len by simp
    moreover have "front (SortStream_ops S compare) (SortStream e ?srt 1) = z"
      using srt by simp
    moreover have "next (SortStream_ops S compare) (SortStream_init s) =
        Some (True, SortStream e ?srt 1)"
      using first Cons by simp
    ultimately have "drain (SortStream_ops S compare) (SortStream_init s) =
        Some (z # zs, SortStream e ?srt (Suc (length xs)))"
      unfolding drain_Cons by blast
    then show ?thesis using srt by simp
  qed
  from first all mset_std_stable_sort sorted_std_stable_sort [OF assms(2)]
    stable_std_stable_sort [OF assms(2)]
  show ?thesis by blast
qed

theorem sort_drains_then_serves_stably_witness:
  "drain IteratorStream_ops (from_container [(2, 0), (1, 0), (2, 1), (1, 1 :: nat)])
     = Some ([(2 :: nat, 0), (1, 0), (2, 1), (1, 1)],
             IteratorStream [(2, 0), (1, 0), (2, 1), (1, 1)] 3 4 4 False) \<and>
   strict_weak_order by_first \<and>
   next (SortStream_ops IteratorStream_ops by_first)
        (SortStream_init (from_container [(2, 0), (1, 0), (2, 1), (1, 1)]))
     = Some (True, SortStream (IteratorStream [(2, 0), (1, 0), (2, 1), (1, 1)] 3 4 4 False)
                     [(1, 0), (1, 1), (2, 0), (2, 1)] 1) \<and>
   drain (SortStream_ops IteratorStream_ops by_first)
         (SortStream_init (from_container [(2, 0), (1, 0), (2, 1), (1, 1)]))
     = Some ([(1, 0), (1, 1), (2, 0), (2, 1)],
             SortStream (IteratorStream [(2, 0), (1, 0), (2, 1), (1, 1)] 3 4 4 False)
               [(1, 0), (1, 1), (2, 0), (2, 1)] 5)"
proof -
  let ?xs = "[(2, 0), (1, 0), (2, 1), (1, 1)] :: (nat \<times> nat) list"
  have d: "drain IteratorStream_ops (from_container ?xs) = Some (?xs, IteratorStream ?xs 3 4 4 False)"
    using drain_from_container [of ?xs] by simp
  have srt: "std_stable_sort by_first ?xs = [(1, 0), (1, 1), (2, 0), (2, 1)]"
    by (simp add: std_stable_sort_def by_first_def)
  from sort_drains_then_serves_stably [OF d strict_weak_order_by_first] d strict_weak_order_by_first
  show ?thesis unfolding srt by simp
qed

text \<open>
  C1, as stated: every terminal operation, \<^verbatim>\<open>first\<close> and \<^verbatim>\<open>element_at\<close> included, raises the
  \<^verbatim>\<open>endless_stream_exception\<close> on an endless stream before it calls \<^verbatim>\<open>next()\<close>.  On the
  endless \<^verbatim>\<open>iota(0, 1)\<close> over 32-bit integers, \<^verbatim>\<open>first\<close> advances the stream and returns 0,
  and \<^verbatim>\<open>element_at(2)\<close> advances it and returns 2.
\<close>

theorem first_on_endless_counterexample:
  "endless IntegerStream_ops (iota (0 :: 32 word) 1) \<and>
   first_build IntegerStream_ops (iota (0 :: 32 word) 1) = Some (Inr (Some 0), IntegerStream 0 1) \<and>
   first_build IntegerStream_ops (iota (0 :: 32 word) 1)
     \<noteq> Some (Inl endless_stream_exception, iota 0 1) \<and>
   endless (SkipStream_ops IntegerStream_ops) (SkipStream_init (iota (0 :: 32 word) 1) (2 :: 64 word)) \<and>
   element_at_build (2 :: 64 word) IntegerStream_ops (iota (0 :: 32 word) 1)
     = Some (Inr (Some 2), SkipStream (IntegerStream 2 1) 0)"
  by (simp add: first_build_def element_at_build_def iota_def SkipStream_init_def
      SkipStream_loop.simps)

text \<open>
  C1, amended: the terminal operations that call \<^verbatim>\<open>throw_if_endless\<close> (for-each, reduce,
  min, max, minmax, all-match, any-match, none-match, count and collect) raise the
  \<^verbatim>\<open>endless_stream_exception\<close> on every stream whose \<^verbatim>\<open>endless()\<close> is true, and return
  the stream as they received it: \<^verbatim>\<open>next()\<close> is not called, whatever it would do.  On a
  stream whose \<^verbatim>\<open>endless()\<close> is false none of them raises that exception.  \<^verbatim>\<open>first\<close> and
  \<^verbatim>\<open>element_at\<close> do not consult \<^verbatim>\<open>endless()\<close>: their outcome is the same whatever
  \<^verbatim>\<open>endless()\<close> returns, and they never raise that exception.  \<^verbatim>\<open>first\<close> is one call of
  \<^verbatim>\<open>next()\<close>: it returns exactly when that call returns, with the element when the call
  succeeded and with the absent value when it failed.  \<^verbatim>\<open>element_at(pos)\<close> is the same on
  \<^verbatim>\<open>skip(pos)\<close> over the stream.
\<close>

theorem terminals_endless_guard:
  "(endless S s \<longrightarrow>
      ForEachBuilder_build pred S s u = Some (Inl endless_stream_exception, s) \<and>
      ReduceBuilder_build biPred S s = Some (Inl endless_stream_exception, s) \<and>
      MinBuilder_build compare S s = Some (Inl endless_stream_exception, s) \<and>
      MaxBuilder_build compare S s = Some (Inl endless_stream_exception, s) \<and>
      MinMaxBuilder_build compare S s = Some (Inl endless_stream_exception, s) \<and>
      AllMatchBuilder_build p S s = Some (Inl endless_stream_exception, s) \<and>
      AnyMatchBuilder_build p S s = Some (Inl endless_stream_exception, s) \<and>
      NoneMatchBuilder_build p S s = Some (Inl endless_stream_exception, s) \<and>
      CountBuilder_build counter S s = Some (Inl endless_stream_exception, s) \<and>
      collect_build container collector S s = Some (Inl endless_stream_exception, s)) \<and>
   (\<not> endless S s \<longrightarrow>
      \<not> raises_endless (ForEachBuilder_build pred S s u) \<and>
      \<not> raises_endless (ReduceBuilder_build biPred S s) \<and>
      \<not> raises_endless (MinBuilder_build compare S s) \<and>
      \<not> raises_endless (MaxBuilder_build compare S s) \<and>
      \<not> raises_endless (MinMaxBuilder_build compare S s) \<and>
      \<not> raises_endless (AllMatchBuilder_build p S s) \<and>
      \<not> raises_endless (AnyMatchBuilder_build p S s) \<and>
      \<not> raises_endless (NoneMatchBuilder_build p S s) \<and>
      \<not> raises_endless (CountBuilder_build counter S s) \<and>
      \<not> raises_endless (collect_build container collector S s)) \<and>
   \<not> raises_endless (first_build S s) \<and>
   \<not> raises_endless (element_at_build pos S s) \<and>
   first_build (S\<lparr>endless := f\<rparr>) s = first_build S s \<and>
   element_at_build pos (S\<lparr>endless := f\<rparr>) s = element_at_build pos S s \<and>
   first_build S s =
     map_option (\<lambda>(r, s'). (Inr (if r then Some (front S s') else None), s')) (next S s) \<and>
   element_at_build pos S s =
     map_option (\<lambda>(r, t). (Inr (if r then Some (front (SkipStream_ops S) t) else None), t))
       (next (SkipStream_ops S) (SkipStream_init s pos))"
  by (intro conjI impI guarded_endless guarded_not_endless first_build_not_endless
      element_at_build_not_endless first_build_ignores_endless element_at_build_ignores_endless
      first_build_one_next element_at_build_one_next)

theorem terminals_endless_guard_witness:
  "endless IntegerStream_ops (iota (0 :: 32 word) 1) \<and>
   CountBuilder_build (0 :: nat) IntegerStream_ops (iota (0 :: 32 word) 1)
     = Some (Inl endless_stream_exception, iota 0 1) \<and>
   \<not> endless IteratorStream_ops (from_container [1 :: int, 2]) \<and>
   \<not> raises_endless (CountBuilder_build (0 :: nat) IteratorStream_ops (from_container [1 :: int, 2]))"
proof -
  have a: "endless IntegerStream_ops (iota (0 :: 32 word) 1)" by simp
  have b: "\<not> endless IteratorStream_ops (from_container [1 :: int, 2])"
    by (simp add: from_container_def)
  have "CountBuilder_build (0 :: nat) IntegerStream_ops (iota (0 :: 32 word) 1)
          = Some (Inl endless_stream_exception, iota 0 1)"
    using a terminals_endless_guard [where S = IntegerStream_ops and s = "iota (0 :: 32 word) 1"
      and pred = "\<lambda>x u. u :: unit" and u = "()" and biPred = "\<lambda>a b. a" and compare = "(<)"
      and p = "\<lambda>x. True" and counter = "0 :: nat" and container = "[] :: 32 word list"
      and collector = "\<lambda>c x. c @ [x]" and pos = "0 :: 64 word" and f = "\<lambda>x. False"]
    by simp
  moreover have "\<not> raises_endless
      (CountBuilder_build (0 :: nat) IteratorStream_ops (from_container [1 :: int, 2]))"
    using b terminals_endless_guard [where S = IteratorStream_ops
      and s = "from_container [1 :: int, 2]"
      and pred = "\<lambda>x u. u :: unit" and u = "()" and biPred = "\<lambda>a b. a" and compare = "(<)"
      and p = "\<lambda>x. True" and counter = "0 :: nat" and container = "[] :: int list"
      and collector = "\<lambda>c x. c @ [x]" and pos = "0 :: 64 word" and f = "\<lambda>x. True"]
    by simp
  ultimately show ?thesis using a b by simp
qed

text \<open>
  C8.  When the outer stream yields no inner stream (its first \<^verbatim>\<open>next()\<close> returns false),
  the constructor of \<^verbatim>\<open>FlatStream\<close> leaves the buffer empty; \<^verbatim>\<open>endless()\<close>, the conjunction
  over the buffer, is true, although the stream has no elements; and every terminal
  operation that calls \<^verbatim>\<open>throw_if_endless\<close> raises the \<^verbatim>\<open>endless_stream_exception\<close>.
\<close>

theorem flat_of_no_streams_is_endless:
  assumes "next S s = Some (False, e)"
  shows "FlatStream_init S s = Some (FlatStream s [] 0) \<and>
         endless (FlatStream_ops I) (FlatStream s [] 0) \<and>
         drain (FlatStream_ops I) (FlatStream s [] 0) = Some ([], FlatStream s [] 0) \<and>
         ForEachBuilder_build pred (FlatStream_ops I) (FlatStream s [] 0) u
           = Some (Inl endless_stream_exception, FlatStream s [] 0) \<and>
         ReduceBuilder_build biPred (FlatStream_ops I) (FlatStream s [] 0)
           = Some (Inl endless_stream_exception, FlatStream s [] 0) \<and>
         MinBuilder_build compare (FlatStream_ops I) (FlatStream s [] 0)
           = Some (Inl endless_stream_exception, FlatStream s [] 0) \<and>
         MaxBuilder_build compare (FlatStream_ops I) (FlatStream s [] 0)
           = Some (Inl endless_stream_exception, FlatStream s [] 0) \<and>
         MinMaxBuilder_build compare (FlatStream_ops I) (FlatStream s [] 0)
           = Some (Inl endless_stream_exception, FlatStream s [] 0) \<and>
         AllMatchBuilder_build p (FlatStream_ops I) (FlatStream s [] 0)
           = Some (Inl endless_stream_exception, FlatStream s [] 0) \<and>
         AnyMatchBuilder_build p (FlatStream_ops I) (FlatStream s [] 0)
           = Some (Inl endless_stream_exception, FlatStream s [] 0) \<and>
         NoneMatchBuilder_build p (FlatStream_ops I) (FlatStream s [] 0)
           = Some (Inl endless_stream_exception, FlatStream s [] 0) \<and>
         CountBuilder_build counter (FlatStream_ops I) (FlatStream s [] 0)
           = Some (Inl endless_stream_exception, FlatStream s [] 0) \<and>
         collect_build container collector (FlatStream_ops I) (FlatStream s [] 0)
           = Some (Inl endless_stream_exception, FlatStream s [] 0)"
proof -
  have "drain S s = Some ([], e)" using assms by (simp add: drain_Nil)
  from push_back_loop_drain [OF this, of "[]"]
  have init: "FlatStream_init S s = Some (FlatStream s [] 0)"
    by (simp add: FlatStream_init_def)
  have en: "endless (FlatStream_ops I) (FlatStream s [] 0)" by simp
  have "FlatStream_loop I [] 0 = Some (False, [], 0)"
    using FlatStream_loop_end [of I "[]"] by simp
  then have dr: "drain (FlatStream_ops I) (FlatStream s [] 0) = Some ([], FlatStream s [] 0)"
    by (simp add: drain_Nil)
  show ?thesis by (intro conjI init en dr guarded_endless [OF en])
qed

theorem flat_of_no_streams_is_endless_witness:
  "next IteratorStream_ops (from_container ([] :: int IteratorStream list))
     = Some (False, from_container []) \<and>
   FlatStream_init IteratorStream_ops (from_container ([] :: int IteratorStream list))
     = Some (FlatStream (from_container []) [] 0) \<and>
   drain (FlatStream_ops IteratorStream_ops)
         (FlatStream (from_container ([] :: int IteratorStream list)) [] 0)
     = Some ([] :: int list, FlatStream (from_container []) [] 0) \<and>
   CountBuilder_build (0 :: nat) (FlatStream_ops (IteratorStream_ops :: (int IteratorStream, int) Stream))
         (FlatStream (from_container ([] :: int IteratorStream list)) [] 0)
     = Some (Inl endless_stream_exception, FlatStream (from_container []) [] 0)"
proof -
  have n: "next IteratorStream_ops (from_container ([] :: int IteratorStream list))
     = Some (False, from_container [])" by (simp add: from_container_def)
  from n flat_of_no_streams_is_endless [OF n, where I = "IteratorStream_ops :: (int IteratorStream, int) Stream"
      and pred = "\<lambda>x u. u :: unit" and u = "()" and biPred = "\<lambda>a b. a" and compare = "(<)"
      and p = "\<lambda>x. True" and counter = "0 :: nat" and container = "[] :: int list"
      and collector = "\<lambda>c x. c @ [x]"]
  show ?thesis by simp
qed

text \<open>
  C4.  \<^verbatim>\<open>endless()\<close> of a join of two or more streams is true exactly when \<^verbatim>\<open>endless()\<close> of at
  least one constituent is true, and \<^verbatim>\<open>endless()\<close> of a combine of two or more streams is
  true exactly when \<^verbatim>\<open>endless()\<close> of every constituent is true.
\<close>

theorem join_any_combine_all_endless:
  "(join_streams cs = Some j \<longrightarrow> JoinStreams_endless j = (\<exists>c\<in>set cs. constituent_endless c)) \<and>
   (combine_streams cs = Some c \<longrightarrow> CombineStreams_endless c = (\<forall>c\<in>set cs. constituent_endless c))"
  by (auto simp: join_streams_endless combine_streams_def list_all_iff split: if_splits)

theorem join_any_combine_all_endless_witness:
  "join_streams [(IteratorStream_ops, from_container [1 :: int]),
                 (IteratorStream_ops, IteratorStream [2] 0 0 1 True)]
     = Some (JoinStreamAB (IteratorStream_ops, from_container [1])
                          (IteratorStream_ops, IteratorStream [2] 0 0 1 True) False) \<and>
   JoinStreams_endless (JoinStreamAB (IteratorStream_ops, from_container [1 :: int])
                          (IteratorStream_ops, IteratorStream [2] 0 0 1 True) False) \<and>
   combine_streams [(IteratorStream_ops, from_container [1 :: int]),
                    (IteratorStream_ops, IteratorStream [2] 0 0 1 True)]
     = Some (CombineStreams (None :: int option)
               [(IteratorStream_ops, from_container [1]),
                (IteratorStream_ops, IteratorStream [2] 0 0 1 True)]) \<and>
   \<not> CombineStreams_endless (CombineStreams (None :: int option)
               [(IteratorStream_ops, from_container [1 :: int]),
                (IteratorStream_ops, IteratorStream [2] 0 0 1 True)])"
proof -
  let ?cs = "[(IteratorStream_ops, from_container [1 :: int]),
              (IteratorStream_ops, IteratorStream [2] 0 0 1 True)]"
  let ?j = "JoinStreamAB (IteratorStream_ops, from_container [1 :: int])
                          (IteratorStream_ops, IteratorStream [2] 0 0 1 True) False"
  let ?c = "CombineStreams (None :: int option) ?cs"
  have j: "join_streams ?cs = Some ?j" by simp
  have c: "combine_streams ?cs = Some ?c" by (simp add: combine_streams_def)
  have e: "(\<exists>c\<in>set ?cs. constituent_endless c)" "\<not> (\<forall>c\<in>set ?cs. constituent_endless c)"
    by (simp_all add: constituent_endless_def from_container_def)
  from join_any_combine_all_endless [of ?cs ?j ?c] j c e
  show ?thesis by blast
qed

text \<open>
  C3.  \<^verbatim>\<open>CombineStreams::next\<close> advances the streams from left to right, up to the first
  that fails (\<open>all_next_stops_at_failure\<close>), and returns false in the first cycle in
  which one of them fails (\<open>CombineStreams_next_fails\<close>).  When all
  succeed it stores the result of the function in the cache and returns true, also when
  that result is absent (\<open>CombineStreams_next_absent\<close>): the absent result is not
  skipped, and \<^verbatim>\<open>front()\<close> would read the empty cache.  On two one-element containers and
  a function that returns the absent value, \<^verbatim>\<open>next()\<close> of the combine returns true with an
  empty cache, where \<^verbatim>\<open>next()\<close> of \<^verbatim>\<open>MapStream\<close> with such a function skips the element and
  returns false.
\<close>

theorem combine_surfaces_absent_result:
  "CombineStreams_next (\<lambda>vs. None :: int option)
     (CombineStreams None [(IteratorStream_ops, from_container [1 :: int]),
                           (IteratorStream_ops, from_container [10])])
     = Some (True, CombineStreams None [(IteratorStream_ops, IteratorStream [1] 0 1 1 False),
                                        (IteratorStream_ops, IteratorStream [10] 0 1 1 False)]) \<and>
   MapStream_next IteratorStream_ops (\<lambda>v. None :: int option) (MapStream (from_container [1 :: int]) None)
     = Some (False, MapStream (IteratorStream [1] 0 1 1 False) None)"
proof -
  have "MapStream_loop IteratorStream_ops (\<lambda>v. None :: int option) (IteratorStream [1 :: int] 0 1 1 False) None
          = Some (False, MapStream (IteratorStream [1] 0 1 1 False) None)"
    by (subst MapStream_loop.simps) simp
  then have "MapStream_loop IteratorStream_ops (\<lambda>v. None :: int option) (from_container [1 :: int]) None
          = Some (False, MapStream (IteratorStream [1] 0 1 1 False) None)"
    by (subst MapStream_loop.simps) (simp add: from_container_def)
  then show ?thesis
    by (simp add: constituent_next_def constituent_front_def from_container_def)
qed

text \<open>
  C10.  In \<^verbatim>\<open>EndlessFlatStream\<close> with \<^verbatim>\<open>left\<close> set: when the current inner stream fails to
  advance, the outer stream yields a further inner stream, and that one fails at its
  first advance, \<^verbatim>\<open>next()\<close> returns false and keeps \<^verbatim>\<open>left\<close> set.  This is not the end: when at
  the following call the outer stream yields yet another inner stream, and that one
  advances, \<^verbatim>\<open>next()\<close> returns true.
\<close>

theorem endless_flat_false_is_not_final:
  assumes "next I (front S s) = Some (False, i1)"
    and "next S (put s i1) = Some (True, s2)"
    and "next I (front S s2) = Some (False, i2)"
    and "next I (front S (put s2 i2)) = Some (False, i3)"
    and "next S (put (put s2 i2) i3) = Some (True, s4)"
    and "next I (front S s4) = Some (True, i4)"
  shows "next (EndlessFlatStream_ops S put I) (EndlessFlatStream s True)
           = Some (False, EndlessFlatStream (put s2 i2) True) \<and>
         next (EndlessFlatStream_ops S put I) (EndlessFlatStream (put s2 i2) True)
           = Some (True, EndlessFlatStream (put s4 i4) True)"
  using assms by (simp add: front_next_def)

theorem endless_flat_false_is_not_final_witness:
  "next IteratorStream_ops (front IteratorStream_ops (outer_at 0 1)) = Some (False, spent_1) \<and>
   next IteratorStream_ops (IteratorStream_put (outer_at 0 1) spent_1) = Some (True, outer_at 1 2) \<and>
   next IteratorStream_ops (front IteratorStream_ops (outer_at 1 2)) = Some (False, from_container []) \<and>
   next IteratorStream_ops (front IteratorStream_ops (IteratorStream_put (outer_at 1 2) (from_container [])))
     = Some (False, from_container []) \<and>
   next IteratorStream_ops
        (IteratorStream_put (IteratorStream_put (outer_at 1 2) (from_container [])) (from_container []))
     = Some (True, outer_at 2 3) \<and>
   next IteratorStream_ops (front IteratorStream_ops (outer_at 2 3))
     = Some (True, IteratorStream [2] 0 1 1 False) \<and>
   next flat_ops (EndlessFlatStream (outer_at 0 1) True)
     = Some (False, EndlessFlatStream (outer_at 1 2) True) \<and>
   next flat_ops (EndlessFlatStream (outer_at 1 2) True)
     = Some (True, EndlessFlatStream
                     (IteratorStream [spent_1, from_container [], IteratorStream [2] 0 1 1 False] 2 3 3 False)
                     True) \<and>
   advances flat_ops 3
     (EndlessFlatStream_init (from_container [from_container [1], from_container [], from_container [2]]))
     = Some ([True, False, True],
             EndlessFlatStream
               (IteratorStream [spent_1, from_container [], IteratorStream [2] 0 1 1 False] 2 3 3 False)
               True)"
proof -
  have h1: "next IteratorStream_ops (front IteratorStream_ops (outer_at 0 1)) = Some (False, spent_1)"
    by simp
  have h2: "next IteratorStream_ops (IteratorStream_put (outer_at 0 1) spent_1) = Some (True, outer_at 1 2)"
    by simp
  have h3: "next IteratorStream_ops (front IteratorStream_ops (outer_at 1 2)) = Some (False, from_container [])"
    by (simp add: from_container_def)
  have h4: "next IteratorStream_ops
      (front IteratorStream_ops (IteratorStream_put (outer_at 1 2) (from_container [])))
     = Some (False, from_container [])"
    by (simp add: from_container_def)
  have h5: "next IteratorStream_ops
        (IteratorStream_put (IteratorStream_put (outer_at 1 2) (from_container [])) (from_container []))
     = Some (True, outer_at 2 3)"
    by (simp add: from_container_def)
  have h6: "next IteratorStream_ops (front IteratorStream_ops (outer_at 2 3))
     = Some (True, IteratorStream [2] 0 1 1 False)"
    by (simp add: from_container_def)
  have p1: "IteratorStream_put (outer_at 1 2) (from_container []) = outer_at 1 2"
    by (simp add: from_container_def)
  have p2: "IteratorStream_put (outer_at 2 3) (IteratorStream [2] 0 1 1 False)
     = IteratorStream [spent_1, from_container [], IteratorStream [2] 0 1 1 False] 2 3 3 False"
    by simp
  note steps = endless_flat_false_is_not_final [OF h1 h2 h3 h4 h5 h6, unfolded p1 p2]
  have first: "next flat_ops
      (EndlessFlatStream_init (from_container [from_container [1], from_container [], from_container [2]]))
      = Some (True, EndlessFlatStream (outer_at 0 1) True)"
    by (simp add: EndlessFlatStream_init_def front_next_def from_container_def)
  have run: "advances flat_ops 3
     (EndlessFlatStream_init (from_container [from_container [1], from_container [], from_container [2]]))
     = Some ([True, False, True],
             EndlessFlatStream
               (IteratorStream [spent_1, from_container [], IteratorStream [2] 0 1 1 False] 2 3 3 False)
               True)"
    using first steps by (simp add: numeral_3_eq_3)
  from h1 h2 h3 h4 h5 h6 steps run show ?thesis by blast
qed

end
